theory Spec2Isabelle
  imports Complex_Main "HOL-Library.Multiset"
begin

section \<open>Python values\<close>

text \<open>
  The uploader of \<^verbatim>\<open>src/http_uploader.py\<close> handles reading sets, HTTP response bodies and
  the content of the cache file as plain Python/JSON values. Floats are idealised as real
  numbers; a dict is an association list whose first binding of a key is the one in force.
\<close>

datatype pyval =
    PNone
  | PBool bool
  | PInt int
  | PFloat real
  | PStr string
  | PList "pyval list"
  | PDict "(string \<times> pyval) list"

datatype exn = AttributeError | TypeError | ValueError | OSError | JSONDecodeError

text \<open>Truthiness, as \<^verbatim>\<open>if x:\<close> and \<^verbatim>\<open>not x\<close> test it.\<close>

fun truthy :: "pyval \<Rightarrow> bool" where
  "truthy PNone = False"
| "truthy (PBool b) = b"
| "truthy (PInt n) = (n \<noteq> 0)"
| "truthy (PFloat r) = (r \<noteq> 0)"
| "truthy (PStr s) = (s \<noteq> [])"
| "truthy (PList xs) = (xs \<noteq> [])"
| "truthy (PDict kvs) = (kvs \<noteq> [])"

text \<open>\<^verbatim>\<open>len(x)\<close>: only strings, lists and dicts have a length.\<close>

fun py_len :: "pyval \<Rightarrow> exn + nat" where
  "py_len (PStr s) = Inr (length s)"
| "py_len (PList xs) = Inr (length xs)"
| "py_len (PDict kvs) = Inr (length kvs)"
| "py_len _ = Inl TypeError"

text \<open>\<^verbatim>\<open>x.get(k, default)\<close>: only a dict has the method.\<close>

fun py_get :: "pyval \<Rightarrow> string \<Rightarrow> pyval \<Rightarrow> exn + pyval" where
  "py_get (PDict kvs) k dflt = Inr (case map_of kvs k of Some v \<Rightarrow> v | None \<Rightarrow> dflt)"
| "py_get _ k dflt = Inl AttributeError"

text \<open>\<^verbatim>\<open>for x in v\<close>: a list yields its elements, a dict its keys, a string its characters.\<close>

fun py_iter :: "pyval \<Rightarrow> exn + pyval list" where
  "py_iter (PList xs) = Inr xs"
| "py_iter (PDict kvs) = Inr (map (\<lambda>kv. PStr (fst kv)) kvs)"
| "py_iter (PStr s) = Inr (map (\<lambda>ch. PStr [ch]) s)"
| "py_iter _ = Inl TypeError"

text \<open>\<^verbatim>\<open>v.append(x)\<close> and \<^verbatim>\<open>v.remove(x)\<close>: list methods; \<^verbatim>\<open>remove\<close> deletes the first
  equal element and raises \<^verbatim>\<open>ValueError\<close> when there is none.\<close>

fun py_append :: "pyval \<Rightarrow> pyval \<Rightarrow> exn + pyval" where
  "py_append (PList xs) x = Inr (PList (xs @ [x]))"
| "py_append _ x = Inl AttributeError"

fun py_remove :: "pyval \<Rightarrow> pyval \<Rightarrow> exn + pyval" where
  "py_remove (PList xs) x = (if x \<in> set xs then Inr (PList (remove1 x xs)) else Inl ValueError)"
| "py_remove _ x = Inl AttributeError"

section \<open>The environment and the state of the uploader\<close>

text \<open>What one \<^verbatim>\<open>requests.post\<close> followed by reading the response can give.\<close>

datatype body = NotJson | Json pyval

datatype outcome = Timeout | ConnectionError | OtherError | Response int body

text \<open>
  What opening the cache file with mode \<^verbatim>\<open>'w'\<close> and dumping into it can give: the file
  written in full, \<^verbatim>\<open>open\<close> failing (the file is untouched), or the dump failing after
  the file was truncated (the text written so far is what is left).
\<close>

datatype 't write_outcome = WriteOk | OpenFails | DumpFails 't

datatype 't file_state = Missing | Unreadable | Text 't

datatype level = Debug | Info | Warning | Error

datatype msg =
    CacheLoaded nat | CacheLoadFailed | CacheSaved nat | CacheSaveFailed | CachedLocally nat
  | DrainStarted nat | DrainUploaded nat
  | Retrying int int | UploadSucceeded | SentData | ServerRejected | BadStatus int
  | ResponseText | RequestTimeout int int | CannotConnect int int | UploadException
  | WaitingBeforeRetry int | RetriesExhausted int | UploadMarked int

text \<open>
  The observable effects, in the order the code performs them. \<open>EvRequest d p r\<close> is one
  POST of payload \<open>p\<close> answered by \<open>r\<close>; its first component names the reading set the
  request was made for (the payload itself carries no timestamp).
\<close>

datatype event =
    EvLog level msg
  | EvRequest pyval pyval outcome
  | EvSleep int
  | EvMark int

text \<open>
  The environment answers the \<open>i\<close>-th request, the \<open>i\<close>-th write of the cache file and
  the \<open>i\<close>-th reading of the clock, and fixes what \<^verbatim>\<open>json.dump\<close> and \<^verbatim>\<open>json.load\<close> do
  on the texts \<open>'t\<close> a file can hold.
\<close>

record 't env =
  net :: "nat \<Rightarrow> outcome"
  wr :: "nat \<Rightarrow> 't write_outcome"
  now :: "nat \<Rightarrow> real"
  json_dump :: "pyval \<Rightarrow> 't"
  json_load :: "'t \<Rightarrow> pyval option"

record config =
  retry_times :: int
  enable_cache :: bool
  verbose :: bool

record 't world =
  cache :: pyval
  data_logger :: bool
  last_successful_upload :: "int option"
  disk :: "'t file_state"
  trace :: "event list"
  posts :: nat
  writes :: nat
  ticks :: nat

definition emit :: "event \<Rightarrow> 't world \<Rightarrow> 't world" where
  "emit e w = w\<lparr>trace := trace w @ [e]\<rparr>"

text \<open>\<^verbatim>\<open>self.logger.<level>(...)\<close>\<close>

definition logger :: "level \<Rightarrow> msg \<Rightarrow> 't world \<Rightarrow> 't world" where
  "logger l m w = emit (EvLog l m) w"

text \<open>\<^verbatim>\<open>time.time()\<close>\<close>

definition time_time :: "'t env \<Rightarrow> 't world \<Rightarrow> real \<times> 't world" where
  "time_time E w = (now E (ticks w), w\<lparr>ticks := Suc (ticks w)\<rparr>)"

text \<open>\<^verbatim>\<open>int(x)\<close> of a float truncates towards zero.\<close>

definition py_int :: "real \<Rightarrow> int" where
  "py_int x = (if 0 \<le> x then \<lfloor>x\<rfloor> else \<lceil>x\<rceil>)"

text \<open>\<^verbatim>\<open>round(x, 1)\<close>: to the nearest tenth, a tie going to the even neighbour.\<close>

definition py_round1 :: "real \<Rightarrow> real" where
  "py_round1 x =
     (let y = x * 10; f = \<lfloor>y\<rfloor>; d = y - of_int f
      in of_int (if d < 1 / 2 then f else if 1 / 2 < d then f + 1
                 else if even f then f else f + 1) / 10)"

section \<open>Building the payload\<close>

text \<open>\<^verbatim>\<open>sensors.get(name, {}).get('value')\<close>\<close>

definition sensor_value :: "pyval \<Rightarrow> string \<Rightarrow> exn + pyval" where
  "sensor_value sensors name =
     (case py_get sensors name (PDict []) of
        Inl e \<Rightarrow> Inl e
      | Inr s \<Rightarrow> py_get s ''value'' PNone)"

text \<open>The substitutes for a missing value, from the fractional part of the clock.\<close>

definition fallback_temp :: "real \<Rightarrow> pyval" where
  "fallback_temp t = PFloat (py_round1 (22 + 2 * frac t))"

definition fallback_humidity :: "real \<Rightarrow> pyval" where
  "fallback_humidity t = PFloat (py_round1 (53 + 4 * frac t))"

definition fallback_pressure :: "real \<Rightarrow> pyval" where
  "fallback_pressure t = PFloat (py_round1 (1012 + 2 * frac t))"

definition fallback_light :: "real \<Rightarrow> pyval" where
  "fallback_light t = PInt (py_int (1150 + 100 * frac t))"

text \<open>
  One of the four blocks \<^verbatim>\<open>v = sensors.get(..).get('value'); if v is None: v = ...\<close>:
  the clock is read only when the value is missing.
\<close>

definition fill :: "'t env \<Rightarrow> 't world \<Rightarrow> pyval \<Rightarrow> string \<Rightarrow> (real \<Rightarrow> pyval) \<Rightarrow> (exn + pyval) \<times> 't world" where
  "fill E w sensors name fb =
     (case sensor_value sensors name of
        Inl e \<Rightarrow> (Inl e, w)
      | Inr v \<Rightarrow>
          if v = PNone then (case time_time E w of (t, w') \<Rightarrow> (Inr (fb t), w'))
          else (Inr v, w))"

definition mk_payload :: "pyval \<Rightarrow> pyval \<Rightarrow> pyval \<Rightarrow> pyval \<Rightarrow> pyval" where
  "mk_payload t h p l =
     PDict [
       (''uav'', PDict [(''lng'', PFloat 120.6551), (''lat'', PFloat 36.1251),
                        (''alt'', PFloat 55.3), (''status'', PStr ''Ready'')]),
       (''usv'', PDict [(''lng'', PFloat 120.6621), (''lat'', PFloat 36.1182),
                        (''temp'', t), (''humidity'', h), (''pressure'', p), (''light'', l),
                        (''status'', PStr ''Active'')]),
       (''scores'', PDict [(''water_quality'', PFloat 91.2), (''dam_safety'', PFloat 97.5)])]"

text \<open>Lines 128 to 179 of \<^verbatim>\<open>_upload_single\<close>; none of it is inside a \<^verbatim>\<open>try\<close>.\<close>

definition build_payload :: "'t env \<Rightarrow> 't world \<Rightarrow> pyval \<Rightarrow> (exn + pyval) \<times> 't world" where
  "build_payload E w sensor_data =
     (case py_get sensor_data ''sensors'' (PDict []) of
        Inl e \<Rightarrow> (Inl e, w)
      | Inr sensors \<Rightarrow>
     (case fill E w sensors ''temperature'' fallback_temp of
        (Inl e, w1) \<Rightarrow> (Inl e, w1)
      | (Inr t, w1) \<Rightarrow>
     (case fill E w1 sensors ''humidity'' fallback_humidity of
        (Inl e, w2) \<Rightarrow> (Inl e, w2)
      | (Inr h, w2) \<Rightarrow>
     (case fill E w2 sensors ''pressure'' fallback_pressure of
        (Inl e, w3) \<Rightarrow> (Inl e, w3)
      | (Inr p, w3) \<Rightarrow>
     (case fill E w3 sensors ''light'' fallback_light of
        (Inl e, w4) \<Rightarrow> (Inl e, w4)
      | (Inr l, w4) \<Rightarrow> (Inr (mk_payload t h p l), w4))))))"

text \<open>\<^verbatim>\<open>payload["usv"][k]\<close>\<close>

definition usv :: "pyval \<Rightarrow> string \<Rightarrow> pyval option" where
  "usv payload k =
     (case payload of
        PDict sections \<Rightarrow>
          (case map_of sections ''usv'' of Some (PDict kvs) \<Rightarrow> map_of kvs k | _ \<Rightarrow> None)
      | _ \<Rightarrow> None)"

section \<open>One delivery\<close>

text \<open>\<^verbatim>\<open>DataLogger.mark_upload_success(int(time.time()))\<close> of \<^verbatim>\<open>src/data_logger.py\<close>.\<close>

definition mark_upload_success :: "'t env \<Rightarrow> 't world \<Rightarrow> 't world" where
  "mark_upload_success E w =
     (case time_time E w of (t, w1) \<Rightarrow>
        (case (if py_int t = 0 then (case time_time E w1 of (t', w2) \<Rightarrow> (py_int t', w2))
               else (py_int t, w1)) of
           (ts, w3) \<Rightarrow>
             logger Info (UploadMarked ts)
               (emit (EvMark ts) (w3\<lparr>last_successful_upload := Some ts\<rparr>))))"

text \<open>
  The body of the \<^verbatim>\<open>for attempt in range(1, max_attempts + 1)\<close> loop up to the end of
  its \<^verbatim>\<open>try\<close>: \<open>Some b\<close> is \<^verbatim>\<open>return b\<close>, \<open>None\<close> falls through to the wait.
  Every exception raised inside is caught by one of the three handlers.
\<close>

definition attempt_once ::
  "'t env \<Rightarrow> config \<Rightarrow> bool \<Rightarrow> pyval \<Rightarrow> pyval \<Rightarrow> int \<Rightarrow> int \<Rightarrow> 't world \<Rightarrow> bool option \<times> 't world" where
  "attempt_once E c use_retry d payload max_attempts attempt w =
     (let w1 = (if use_retry \<and> 1 < attempt then logger Info (Retrying attempt max_attempts) w else w);
          r = net E (posts w1);
          w2 = emit (EvRequest d payload r) (w1\<lparr>posts := Suc (posts w1)\<rparr>)
      in case r of
           Timeout \<Rightarrow> (None, logger Warning (RequestTimeout attempt max_attempts) w2)
         | ConnectionError \<Rightarrow> (None, logger Warning (CannotConnect attempt max_attempts) w2)
         | OtherError \<Rightarrow> (None, logger Error UploadException w2)
         | Response status b \<Rightarrow>
             if status = 200 then
               (case b of
                  NotJson \<Rightarrow> (None, logger Error UploadException w2)
                | Json result \<Rightarrow>
                    (case py_get result ''ok'' PNone of
                       Inl e \<Rightarrow> (None, logger Error UploadException w2)
                     | Inr ok \<Rightarrow>
                         if truthy ok then
                           (let w3 = logger Info UploadSucceeded w2;
                                w4 = (if data_logger w3 then mark_upload_success E w3 else w3);
                                w5 = (if verbose c
                                      then logger Info SentData (logger Info SentData w4) else w4)
                            in (Some True, w5))
                         else (Some False, logger Error ServerRejected w2)))
             else
               (let w3 = logger Warning (BadStatus status) w2;
                    w4 = (if verbose c
                          then logger Debug SentData (logger Debug ResponseText w3) else w3)
                in (None, w4)))"

text \<open>Lines 239 to 242: the wait after a failed attempt that is not the last one.\<close>

definition backoff :: "bool \<Rightarrow> int \<Rightarrow> int \<Rightarrow> 't world \<Rightarrow> 't world" where
  "backoff use_retry max_attempts attempt w =
     (if use_retry \<and> attempt < max_attempts
      then (let wait_time = 2 ^ nat attempt
            in emit (EvSleep wait_time) (logger Info (WaitingBeforeRetry wait_time) w))
      else w)"

text \<open>The loop over the attempt numbers, and lines 244 to 247 after it.\<close>

fun attempt_loop ::
  "'t env \<Rightarrow> config \<Rightarrow> bool \<Rightarrow> pyval \<Rightarrow> pyval \<Rightarrow> int \<Rightarrow> int list \<Rightarrow> 't world \<Rightarrow> bool \<times> 't world" where
  "attempt_loop E c use_retry d payload max_attempts [] w =
     (False, if use_retry then logger Error (RetriesExhausted max_attempts) w else w)"
| "attempt_loop E c use_retry d payload max_attempts (attempt # rest) w =
     (case attempt_once E c use_retry d payload max_attempts attempt w of
        (Some b, w') \<Rightarrow> (b, w')
      | (None, w') \<Rightarrow>
          attempt_loop E c use_retry d payload max_attempts rest
            (backoff use_retry max_attempts attempt w'))"

text \<open>\<^verbatim>\<open>HTTPUploader._upload_single\<close>\<close>

definition upload_single :: "'t env \<Rightarrow> config \<Rightarrow> 't world \<Rightarrow> pyval \<Rightarrow> bool \<Rightarrow> (exn + bool) \<times> 't world" where
  "upload_single E c w sensor_data use_retry =
     (case build_payload E w sensor_data of
        (Inl e, w1) \<Rightarrow> (Inl e, w1)
      | (Inr payload, w1) \<Rightarrow>
          (let max_attempts = (if use_retry then retry_times c else 1)
           in case attempt_loop E c use_retry sensor_data payload max_attempts [1..max_attempts] w1 of
                (b, w2) \<Rightarrow> (Inr b, w2)))"

section \<open>The spill queue\<close>

text \<open>
  The \<^verbatim>\<open>try\<close> block of \<^verbatim>\<open>_load_cache\<close>: \<^verbatim>\<open>open\<close> and \<^verbatim>\<open>json.load\<close> can raise, and so can
  \<^verbatim>\<open>len\<close> in the log line when the document is a number or \<^verbatim>\<open>true\<close>.
\<close>

definition load_try :: "'t env \<Rightarrow> 't world \<Rightarrow> (exn + unit) \<times> 't world" where
  "load_try E w =
     (case disk w of
        Missing \<Rightarrow> (Inl OSError, w)
      | Unreadable \<Rightarrow> (Inl OSError, w)
      | Text t \<Rightarrow>
          (case json_load E t of
             None \<Rightarrow> (Inl JSONDecodeError, w)
           | Some v \<Rightarrow>
               (let w1 = w\<lparr>cache := v\<rparr>
                in if truthy (cache w1) then
                     (case py_len (cache w1) of
                        Inl e \<Rightarrow> (Inl e, w1)
                      | Inr n \<Rightarrow> (Inr (), logger Info (CacheLoaded n) w1))
                   else (Inr (), w1))))"

text \<open>\<^verbatim>\<open>HTTPUploader._load_cache\<close>\<close>

definition load_cache :: "'t env \<Rightarrow> 't world \<Rightarrow> (exn + unit) \<times> 't world" where
  "load_cache E w =
     (if disk w = Missing then (Inr (), w\<lparr>cache := PList []\<rparr>)
      else case load_try E w of
             (Inl e, w1) \<Rightarrow> (Inr (), (logger Warning CacheLoadFailed w1)\<lparr>cache := PList []\<rparr>)
           | (Inr u, w1) \<Rightarrow> (Inr (), w1))"

text \<open>The \<^verbatim>\<open>try\<close> block of \<^verbatim>\<open>_save_cache\<close>.\<close>

definition save_try :: "'t env \<Rightarrow> 't world \<Rightarrow> (exn + unit) \<times> 't world" where
  "save_try E w =
     (let r = wr E (writes w); w1 = w\<lparr>writes := Suc (writes w)\<rparr>
      in case r of
           OpenFails \<Rightarrow> (Inl OSError, w1)
         | DumpFails t \<Rightarrow> (Inl OSError, w1\<lparr>disk := Text t\<rparr>)
         | WriteOk \<Rightarrow>
             (let w2 = w1\<lparr>disk := Text (json_dump E (cache w1))\<rparr>
              in case py_len (cache w2) of
                   Inl e \<Rightarrow> (Inl e, w2)
                 | Inr n \<Rightarrow> (Inr (), logger Debug (CacheSaved n) w2)))"

text \<open>\<^verbatim>\<open>HTTPUploader._save_cache\<close>\<close>

definition save_cache :: "'t env \<Rightarrow> 't world \<Rightarrow> (exn + unit) \<times> 't world" where
  "save_cache E w =
     (case save_try E w of
        (Inl e, w1) \<Rightarrow> (Inr (), logger Error CacheSaveFailed w1)
      | (Inr u, w1) \<Rightarrow> (Inr (), w1))"

text \<open>\<^verbatim>\<open>HTTPUploader._add_to_cache\<close>\<close>

definition add_to_cache :: "'t env \<Rightarrow> config \<Rightarrow> 't world \<Rightarrow> pyval \<Rightarrow> (exn + unit) \<times> 't world" where
  "add_to_cache E c w sensor_data =
     (if \<not> enable_cache c then (Inr (), w)
      else case py_append (cache w) sensor_data of
             Inl e \<Rightarrow> (Inl e, w)
           | Inr v \<Rightarrow>
               (case save_cache E (w\<lparr>cache := v\<rparr>) of
                  (Inl e, w1) \<Rightarrow> (Inl e, w1)
                | (Inr u, w1) \<Rightarrow>
                    (case py_len (cache w1) of
                       Inl e \<Rightarrow> (Inl e, w1)
                     | Inr n \<Rightarrow> (Inr (), logger Info (CachedLocally n) w1))))"

text \<open>The first loop of \<^verbatim>\<open>_upload_cached_data\<close>: one attempt each, stopping at a failure.\<close>

fun drain_loop ::
  "'t env \<Rightarrow> config \<Rightarrow> pyval list \<Rightarrow> pyval list \<Rightarrow> 't world \<Rightarrow> (exn + pyval list) \<times> 't world" where
  "drain_loop E c [] uploaded w = (Inr uploaded, w)"
| "drain_loop E c (d # rest) uploaded w =
     (case upload_single E c w d False of
        (Inl e, w1) \<Rightarrow> (Inl e, w1)
      | (Inr ok, w1) \<Rightarrow>
          if ok then drain_loop E c rest (uploaded @ [d]) w1
          else (Inr uploaded, w1))"

text \<open>The second loop: \<^verbatim>\<open>for data in uploaded: self.cache.remove(data)\<close>.\<close>

fun remove_loop :: "pyval list \<Rightarrow> 't world \<Rightarrow> (exn + unit) \<times> 't world" where
  "remove_loop [] w = (Inr (), w)"
| "remove_loop (d # rest) w =
     (case py_remove (cache w) d of
        Inl e \<Rightarrow> (Inl e, w)
      | Inr v \<Rightarrow> remove_loop rest (w\<lparr>cache := v\<rparr>))"

text \<open>\<^verbatim>\<open>HTTPUploader._upload_cached_data\<close>\<close>

definition upload_cached_data :: "'t env \<Rightarrow> config \<Rightarrow> 't world \<Rightarrow> (exn + unit) \<times> 't world" where
  "upload_cached_data E c w =
     (if \<not> truthy (cache w) then (Inr (), w)
      else case py_len (cache w) of
             Inl e \<Rightarrow> (Inl e, w)
           | Inr n \<Rightarrow>
     (let w1 = logger Info (DrainStarted n) w
      in case py_iter (cache w1) of
             Inl e \<Rightarrow> (Inl e, w1)
           | Inr items \<Rightarrow>
     (case drain_loop E c items [] w1 of
        (Inl e, w2) \<Rightarrow> (Inl e, w2)
      | (Inr uploaded, w2) \<Rightarrow>
     (case remove_loop uploaded w2 of
        (Inl e, w3) \<Rightarrow> (Inl e, w3)
      | (Inr u, w3) \<Rightarrow>
          if uploaded \<noteq> [] then
            (case save_cache E w3 of
               (Inl e, w4) \<Rightarrow> (Inl e, w4)
             | (Inr u', w4) \<Rightarrow> (Inr (), logger Info (DrainUploaded (length uploaded)) w4))
          else (Inr (), w3)))))"

text \<open>\<^verbatim>\<open>HTTPUploader.upload\<close>\<close>

definition upload :: "'t env \<Rightarrow> config \<Rightarrow> 't world \<Rightarrow> pyval \<Rightarrow> (exn + bool) \<times> 't world" where
  "upload E c w sensor_data =
     (case upload_single E c w sensor_data True of
        (Inl e, w1) \<Rightarrow> (Inl e, w1)
      | (Inr success, w1) \<Rightarrow>
     (case (if \<not> success \<and> enable_cache c then add_to_cache E c w1 sensor_data
            else (Inr (), w1)) of
        (Inl e, w2) \<Rightarrow> (Inl e, w2)
      | (Inr u, w2) \<Rightarrow>
     (case (if success \<and> truthy (cache w2) then upload_cached_data E c w2
            else (Inr (), w2)) of
        (Inl e, w3) \<Rightarrow> (Inl e, w3)
      | (Inr u', w3) \<Rightarrow> (Inr success, w3))))"

text \<open>
  \<^verbatim>\<open>HTTPUploader.__init__\<close>, as far as the state goes: no data logger, an empty cache, and
  the cache file loaded when caching is enabled. A process that starts finds the file its
  predecessor left.
\<close>

definition uploader_init :: "'t env \<Rightarrow> config \<Rightarrow> 't world \<Rightarrow> (exn + unit) \<times> 't world" where
  "uploader_init E c w =
     (let w1 = w\<lparr>data_logger := False, cache := PList []\<rparr>
      in if enable_cache c then load_cache E w1 else (Inr (), w1))"

section \<open>Reading the trace\<close>

text \<open>The requests of a trace, each with the reading set it was made for and its answer.\<close>

fun delivery_of :: "event \<Rightarrow> (pyval \<times> outcome) list" where
  "delivery_of (EvRequest d p r) = [(d, r)]"
| "delivery_of _ = []"

definition deliveries :: "event list \<Rightarrow> (pyval \<times> outcome) list" where
  "deliveries tr = concat (map delivery_of tr)"

definition attempts :: "event list \<Rightarrow> nat" where
  "attempts tr = length (deliveries tr)"

text \<open>The requests and the sleeps of a trace, in order.\<close>

datatype tick = Att | Wait int

fun tick_of :: "event \<Rightarrow> tick list" where
  "tick_of (EvRequest d p r) = [Att]"
| "tick_of (EvSleep n) = [Wait n]"
| "tick_of _ = []"

definition timeline :: "event list \<Rightarrow> tick list" where
  "timeline tr = concat (map tick_of tr)"

text \<open>
  How \<^verbatim>\<open>_upload_single\<close> classifies an answer: \<open>accepted\<close> leads to \<^verbatim>\<open>return True\<close>,
  \<open>retryable\<close> falls through to the next attempt, and what is neither (a 200 response
  whose body is a JSON object without a truthy \<^verbatim>\<open>ok\<close>) leads to \<^verbatim>\<open>return False\<close>.
\<close>

fun accepted :: "outcome \<Rightarrow> bool" where
  "accepted (Response status (Json (PDict kvs))) =
     (status = 200 \<and> truthy (case map_of kvs ''ok'' of Some v \<Rightarrow> v | None \<Rightarrow> PNone))"
| "accepted _ = False"

fun retryable :: "outcome \<Rightarrow> bool" where
  "retryable (Response status (Json (PDict kvs))) = (status \<noteq> 200)"
| "retryable _ = True"

text \<open>
  The schedule the specification gives for \<open>n\<close> attempts numbered from \<open>k\<close>: a wait of
  \<open>2 ^ k\<close> seconds between attempt \<open>k\<close> and the next one, none after the last.
\<close>

fun schedule :: "int \<Rightarrow> nat \<Rightarrow> tick list" where
  "schedule k 0 = []"
| "schedule k (Suc 0) = [Att]"
| "schedule k (Suc (Suc n)) = Att # Wait (2 ^ nat k) # schedule (k + 1) (Suc n)"

text \<open>The reading sets of a trace that the collector acknowledged, one entry per acknowledgement.\<close>

definition acked :: "event list \<Rightarrow> pyval list" where
  "acked tr = map fst (filter (\<lambda>dr. accepted (snd dr)) (deliveries tr))"

text \<open>
  The reading sets from which \<^verbatim>\<open>_upload_single\<close> can build a payload: a dict whose
  \<^verbatim>\<open>sensors\<close> entry, when present, is a dict whose entries for the four sensors, when
  present, are dicts. On anything else one of the \<^verbatim>\<open>.get\<close> calls raises
  \<^verbatim>\<open>AttributeError\<close> before the first attempt.
\<close>

definition is_dict :: "pyval \<Rightarrow> bool" where
  "is_dict v = (case v of PDict kvs \<Rightarrow> True | _ \<Rightarrow> False)"

definition well_formed :: "pyval \<Rightarrow> bool" where
  "well_formed d =
     (case py_get d ''sensors'' (PDict []) of
        Inl e \<Rightarrow> False
      | Inr sensors \<Rightarrow>
          list_all (\<lambda>name. case py_get sensors name (PDict []) of
                                Inl e \<Rightarrow> False
                              | Inr s \<Rightarrow> is_dict s)
            [''temperature'', ''humidity'', ''pressure'', ''light''])"

text \<open>
  What the input holds for a sensor, \<^verbatim>\<open>sensor_data.get('sensors', {}).get(name, {}).get('value')\<close>:
  \<open>Inr PNone\<close> when the value is absent.
\<close>

definition reading :: "pyval \<Rightarrow> string \<Rightarrow> exn + pyval" where
  "reading d name =
     (case py_get d ''sensors'' (PDict []) of
        Inl e \<Rightarrow> Inl e
      | Inr sensors \<Rightarrow> sensor_value sensors name)"

text \<open>
  The collection loop of \<^verbatim>\<open>src/main.py\<close> hands one reading set after the other to
  \<^verbatim>\<open>upload\<close>, catching whatever a call raises and going on with the next one.
\<close>

fun run :: "'t env \<Rightarrow> config \<Rightarrow> 't world \<Rightarrow> pyval list \<Rightarrow> (exn + bool) list \<times> 't world" where
  "run E c w [] = ([], w)"
| "run E c w (d # ds) =
     (case upload E c w d of
        (r, w1) \<Rightarrow> (case run E c w1 ds of (rs, w2) \<Rightarrow> (r # rs, w2)))"

text \<open>The queue in memory, and the queue a process started now would load from the file.\<close>

definition queue :: "'t world \<Rightarrow> pyval list" where
  "queue w = (case cache w of PList q \<Rightarrow> q | _ \<Rightarrow> [])"

definition reloaded :: "'t env \<Rightarrow> config \<Rightarrow> 't world \<Rightarrow> pyval" where
  "reloaded E c w = cache (snd (uploader_init E c w))"

text \<open>The acknowledgements that came in between two states.\<close>

definition acked_during :: "'t world \<Rightarrow> 't world \<Rightarrow> pyval list" where
  "acked_during w w' = drop (length (acked (trace w))) (acked (trace w'))"

text \<open>
  Of the \<open>n\<close> requests numbered from \<open>p\<close>, how many are accepted before the first one
  that is not.
\<close>

definition accepted_prefix :: "'t env \<Rightarrow> nat \<Rightarrow> nat \<Rightarrow> nat" where
  "accepted_prefix E p n = length (takeWhile (\<lambda>i. accepted (net E i)) [p..<p + n])"

text \<open>
  What the specification asks of one sensor field of the payload: it is there and not null,
  it is the input's value when the input has one, and it lies in the documented range
  when the input has none.
\<close>

definition float_between :: "real \<Rightarrow> real \<Rightarrow> pyval \<Rightarrow> bool" where
  "float_between lo hi v = (case v of PFloat r \<Rightarrow> lo \<le> r \<and> r \<le> hi | _ \<Rightarrow> False)"

definition int_between :: "int \<Rightarrow> int \<Rightarrow> pyval \<Rightarrow> bool" where
  "int_between lo hi v = (case v of PInt n \<Rightarrow> lo \<le> n \<and> n \<le> hi | _ \<Rightarrow> False)"

definition carried :: "pyval \<Rightarrow> string \<Rightarrow> pyval \<Rightarrow> string \<Rightarrow> (pyval \<Rightarrow> bool) \<Rightarrow> bool" where
  "carried d name payload key in_range =
     (case (reading d name, usv payload key) of
        (Inr x, Some v) \<Rightarrow> v \<noteq> PNone \<and> (if x = PNone then in_range v else v = x)
      | _ \<Rightarrow> False)"

section \<open>Sample inputs\<close>

text \<open>
  The reading set and the configuration of the module's own test block, a reading set with
  two sensors left out, and a few environments.
\<close>

definition test_data :: pyval where
  "test_data =
     PDict [(''timestamp'', PStr ''2024-01-01T12:00:00''),
            (''sensors'', PDict [
               (''temperature'', PDict [(''value'', PFloat 22.8),
                                        (''unit'', PStr [CHR 0xC2, CHR 0xB0, CHR ''C''])]),
               (''humidity'', PDict [(''value'', PFloat 54.7), (''unit'', PStr ''%'')]),
               (''pressure'', PDict [(''value'', PFloat 1012.9), (''unit'', PStr ''hPa'')]),
               (''light'', PDict [(''value'', PInt 1180), (''unit'', PStr ''lux'')])])]"

definition partial_data :: pyval where
  "partial_data =
     PDict [(''timestamp'', PStr ''2024-01-01T12:00:30''),
            (''sensors'', PDict [
               (''temperature'', PDict [(''value'', PFloat 23.1),
                                        (''unit'', PStr [CHR 0xC2, CHR 0xB0, CHR ''C''])]),
               (''light'', PDict [(''value'', PInt 960), (''unit'', PStr ''lux'')])])]"

definition empty_data :: pyval where
  "empty_data = PDict [(''timestamp'', PStr ''2024-01-01T12:01:00''), (''sensors'', PDict [])]"

definition mock_config :: config where
  "mock_config = \<lparr>retry_times = 3, enable_cache = True, verbose = True\<rparr>"

text \<open>
  A file text is either what dumping a value wrote or other bytes; the sample codec reads
  the former back and rejects the latter.
\<close>

definition sample_env :: "(nat \<Rightarrow> outcome) \<Rightarrow> (nat \<Rightarrow> (string + pyval) write_outcome) \<Rightarrow> (string + pyval) env" where
  "sample_env answers written =
     \<lparr>net = answers, wr = written, now = (\<lambda>i. 1700000000.25),
      json_dump = Inr, json_load = (\<lambda>t. case t of Inl bytes \<Rightarrow> None | Inr v \<Rightarrow> Some v)\<rparr>"

definition fresh_world :: "(string + pyval) world" where
  "fresh_world =
     \<lparr>cache = PList [], data_logger = False, last_successful_upload = None, disk = Missing,
      trace = [], posts = 0, writes = 0, ticks = 0\<rparr>"

definition accepting :: outcome where
  "accepting = Response 200 (Json (PDict [(''ok'', PBool True), (''server_ts'', PInt 1700000000)]))"

definition rejecting :: outcome where
  "rejecting = Response 200 (Json (PDict [(''ok'', PBool False), (''err'', PStr ''bad payload'')]))"

lemma trace_emit [simp]: "trace (emit e w) = trace w @ [e]"
  by (simp add: emit_def)
lemma trace_logger [simp]: "trace (logger l m w) = trace w @ [EvLog l m]"
  by (simp add: logger_def)
lemma emit_fields [simp]:
  "cache (emit e w) = cache w" "disk (emit e w) = disk w" "writes (emit e w) = writes w"
  "posts (emit e w) = posts w" "ticks (emit e w) = ticks w" "data_logger (emit e w) = data_logger w"
  "last_successful_upload (emit e w) = last_successful_upload w"
  by (simp_all add: emit_def)
lemma logger_fields [simp]:
  "cache (logger l m w) = cache w" "disk (logger l m w) = disk w" "writes (logger l m w) = writes w"
  "posts (logger l m w) = posts w" "ticks (logger l m w) = ticks w" "data_logger (logger l m w) = data_logger w"
  "last_successful_upload (logger l m w) = last_successful_upload w"
  by (simp_all add: logger_def)

lemma deliveries_append [simp]: "deliveries (xs @ ys) = deliveries xs @ deliveries ys"
  by (simp add: deliveries_def)
lemma deliveries_Nil [simp]: "deliveries [] = []"
  by (simp add: deliveries_def)
lemma deliveries_Cons [simp]: "deliveries (e # es) = delivery_of e @ deliveries es"
  by (simp add: deliveries_def)
lemma timeline_append [simp]: "timeline (xs @ ys) = timeline xs @ timeline ys"
  by (simp add: timeline_def)
lemma timeline_Nil [simp]: "timeline [] = []"
  by (simp add: timeline_def)
lemma timeline_Cons [simp]: "timeline (e # es) = tick_of e @ timeline es"
  by (simp add: timeline_def)

lemma mark_upload_success_trace [simp]:
  "deliveries (trace (mark_upload_success E w)) = deliveries (trace w)"
  "timeline (trace (mark_upload_success E w)) = timeline (trace w)"
  by (simp_all add: mark_upload_success_def time_time_def split: prod.splits if_splits)

lemma mark_upload_success_fields [simp]:
  "cache (mark_upload_success E w) = cache w" "disk (mark_upload_success E w) = disk w"
  "writes (mark_upload_success E w) = writes w" "posts (mark_upload_success E w) = posts w"
  "data_logger (mark_upload_success E w) = data_logger w"
  by (simp_all add: mark_upload_success_def time_time_def split: prod.splits if_splits)

lemma attempt_once_result:
  "fst (attempt_once E c ur d p m k w) =
     (if retryable (net E (posts w)) then None else Some (accepted (net E (posts w))))"
  by (cases "net E (posts w)" rule: retryable.cases)
     (simp_all add: attempt_once_def Let_def)

lemma attempt_once_fields [simp]:
  "cache (snd (attempt_once E c ur d p m k w)) = cache w"
  "disk (snd (attempt_once E c ur d p m k w)) = disk w"
  "writes (snd (attempt_once E c ur d p m k w)) = writes w"
  "data_logger (snd (attempt_once E c ur d p m k w)) = data_logger w"
  "posts (snd (attempt_once E c ur d p m k w)) = Suc (posts w)"
  by (cases "net E (posts w)" rule: retryable.cases;
      simp add: attempt_once_def Let_def)+

lemma attempt_once_trace [simp]:
  "deliveries (trace (snd (attempt_once E c ur d p m k w))) =
     deliveries (trace w) @ [(d, net E (posts w))]"
  "timeline (trace (snd (attempt_once E c ur d p m k w))) = timeline (trace w) @ [Att]"
  by (cases "net E (posts w)" rule: retryable.cases;
      simp add: attempt_once_def Let_def)+

lemma backoff_fields [simp]:
  "cache (backoff ur m k w) = cache w"
  "disk (backoff ur m k w) = disk w"
  "writes (backoff ur m k w) = writes w"
  "data_logger (backoff ur m k w) = data_logger w"
  "posts (backoff ur m k w) = posts w"
  "deliveries (trace (backoff ur m k w)) = deliveries (trace w)"
  by (simp_all add: backoff_def Let_def)

lemma backoff_timeline:
  "timeline (trace (backoff ur m k w)) =
     timeline (trace w) @ (if ur \<and> k < m then [Wait (2 ^ nat k)] else [])"
  by (simp add: backoff_def Let_def)

lemma attempt_loop_fields [simp]:
  "cache (snd (attempt_loop E c ur d p m ks w)) = cache w"
  "disk (snd (attempt_loop E c ur d p m ks w)) = disk w"
  "writes (snd (attempt_loop E c ur d p m ks w)) = writes w"
  "data_logger (snd (attempt_loop E c ur d p m ks w)) = data_logger w"
  by (induction ks arbitrary: w; simp split: prod.splits option.splits; 
      metis attempt_once_fields backoff_fields snd_conv)+


lemma attempt_loop_Cons:
  "attempt_loop E c ur d p m (k # ks) w =
     (if retryable (net E (posts w))
      then attempt_loop E c ur d p m ks (backoff ur m k (snd (attempt_once E c ur d p m k w)))
      else (accepted (net E (posts w)), snd (attempt_once E c ur d p m k w)))"
  using attempt_once_result [of E c ur d p m k w]
  by (cases "attempt_once E c ur d p m k w") (auto split: option.splits if_splits)

declare attempt_loop.simps(2) [simp del]

lemma attempt_loop_Nil_fields [simp]:
  "posts (snd (attempt_loop E c ur d p m [] w)) = posts w"
  "deliveries (trace (snd (attempt_loop E c ur d p m [] w))) = deliveries (trace w)"
  "timeline (trace (snd (attempt_loop E c ur d p m [] w))) = timeline (trace w)"
  by simp_all

lemma attempt_loop_schedule:
  "posts w \<le> posts (snd (attempt_loop E c True d p m [k..m] w)) \<and>
   (k \<le> m \<longrightarrow> posts w < posts (snd (attempt_loop E c True d p m [k..m] w))) \<and>
   posts (snd (attempt_loop E c True d p m [k..m] w)) \<le> posts w + nat (m + 1 - k) \<and>
   timeline (trace (snd (attempt_loop E c True d p m [k..m] w))) =
     timeline (trace w) @ schedule k (posts (snd (attempt_loop E c True d p m [k..m] w)) - posts w)"
proof (induction "nat (m + 1 - k)" arbitrary: k w)
  case 0
  then have "[k..m] = []" by simp
  then show ?case by simp
next
  case (Suc n)
  then have km: "k \<le> m" and n: "n = nat (m + 1 - (k + 1))" by linarith+
  have unfold: "[k..m] = k # [k + 1..m]" using km by (simp add: upto_rec1)
  let ?w1 = "snd (attempt_once E c True d p m k w)"
  let ?w2 = "backoff True m k ?w1"
  show ?case
  proof (cases "retryable (net E (posts w))")
    case False
    then show ?thesis using km by (simp add: unfold attempt_loop_Cons)
  next
    case True
    note IH = Suc.hyps(1) [OF n, of ?w2]
    show ?thesis
    proof (cases "k < m")
      case True
      let ?w' = "snd (attempt_loop E c True d p m [k + 1..m] ?w2)"
      have p2: "posts ?w2 = Suc (posts w)" by simp
      from True IH have "posts ?w2 < posts ?w'" by simp
      then obtain j where j: "posts ?w' = Suc (posts ?w2 + j)"
        using less_imp_Suc_add by blast
      have sched: "schedule k (Suc (Suc j)) = Att # Wait (2 ^ nat k) # schedule (k + 1) (Suc j)"
        by simp
      have bound: "nat (m + 1 - (k + 1)) + 1 = nat (m + 1 - k)" using km by simp
      have step: "attempt_loop E c True d p m [k..m] w = attempt_loop E c True d p m [k + 1..m] ?w2"
        using \<open>retryable (net E (posts w))\<close> by (simp add: unfold attempt_loop_Cons)
      have tl2: "timeline (trace ?w2) = timeline (trace w) @ [Att, Wait (2 ^ nat k)]"
        using True by (simp add: backoff_timeline)
      from IH have tl: "timeline (trace ?w') = timeline (trace ?w2) @ schedule (k + 1) (posts ?w' - posts ?w2)"
        and le: "posts ?w' \<le> posts ?w2 + nat (m + 1 - (k + 1))" by blast+
      have d1: "posts ?w' - posts ?w2 = Suc j" using j by simp
      have d2: "posts ?w' - posts w = Suc (Suc j)" using j p2 by simp
      have "posts ?w' \<le> posts w + nat (m + 1 - k)" using le p2 bound by linarith
      moreover have "posts w < posts ?w'" using j p2 by linarith
      moreover have "timeline (trace ?w') = timeline (trace w) @ schedule k (posts ?w' - posts w)"
        unfolding d2 sched tl tl2 d1 by simp
      ultimately show ?thesis unfolding step using km by simp
    next
      case False
      with km have "k = m" by simp
      then show ?thesis using True by (simp add: unfold attempt_loop_Cons backoff_timeline)
    qed
  qed
qed


lemma acked_append [simp]: "acked (xs @ ys) = acked xs @ acked ys"
  by (simp add: acked_def)

lemma acked_Nil [simp]: "acked [] = []"
  by (simp add: acked_def)

lemma acked_deliveries:
  "deliveries tr' = deliveries tr @ ds \<Longrightarrow>
   acked tr' = acked tr @ map fst (filter (\<lambda>dr. accepted (snd dr)) ds)"
  by (simp add: acked_def)

lemma not_retryable_accepted: "accepted r \<Longrightarrow> \<not> retryable r"
  by (cases r rule: retryable.cases) simp_all

lemma attempt_loop_deliveries:
  "posts w \<le> posts (snd (attempt_loop E c ur d p m ks w)) \<and>
   posts (snd (attempt_loop E c ur d p m ks w)) \<le> posts w + length ks \<and>
   deliveries (trace (snd (attempt_loop E c ur d p m ks w))) =
     deliveries (trace w) @
       map (\<lambda>i. (d, net E i)) [posts w..<posts (snd (attempt_loop E c ur d p m ks w))] \<and>
   acked (trace (snd (attempt_loop E c ur d p m ks w))) =
     acked (trace w) @ (if fst (attempt_loop E c ur d p m ks w) then [d] else [])"
proof (induction ks arbitrary: w)
  case Nil
  show ?case by (simp add: acked_def)
next
  case (Cons k ks)
  let ?w1 = "snd (attempt_once E c ur d p m k w)"
  let ?w2 = "backoff ur m k ?w1"
  have a1: "acked (trace ?w1) = acked (trace w) @ (if accepted (net E (posts w)) then [d] else [])"
    by (simp add: acked_def)
  have a2: "acked (trace ?w2) = acked (trace ?w1)"
    by (simp add: acked_def)
  show ?case
  proof (cases "retryable (net E (posts w))")
    case False
    then show ?thesis by (simp add: attempt_loop_Cons a1)
  next
    case True
    then have na: "\<not> accepted (net E (posts w))" using not_retryable_accepted by blast
    let ?w' = "snd (attempt_loop E c ur d p m ks ?w2)"
    have step: "attempt_loop E c ur d p m (k # ks) w = attempt_loop E c ur d p m ks ?w2"
      using True by (simp add: attempt_loop_Cons)
    note IH = Cons.IH [of ?w2]
    have p2: "posts ?w2 = Suc (posts w)" by simp
    from IH have le: "Suc (posts w) \<le> posts ?w'" and ub: "posts ?w' \<le> Suc (posts w) + length ks"
      and dl: "deliveries (trace ?w') = deliveries (trace ?w2) @ map (\<lambda>i. (d, net E i)) [Suc (posts w)..<posts ?w']"
      and ak: "acked (trace ?w') = acked (trace ?w2) @ (if fst (attempt_loop E c ur d p m ks ?w2) then [d] else [])"
      unfolding p2 by blast+
    have up: "[posts w..<posts ?w'] = posts w # [Suc (posts w)..<posts ?w']"
      using le by (simp add: upt_conv_Cons)
    show ?thesis unfolding step using le ub dl ak a1 a2 na up by simp
  qed
qed

lemma attempt_loop_all_retryable:
  "\<forall>i. retryable (net E i) \<Longrightarrow>
   fst (attempt_loop E c ur d p m ks w) = False \<and>
   posts (snd (attempt_loop E c ur d p m ks w)) = posts w + length ks"
  by (induction ks arbitrary: w) (simp_all add: attempt_loop_Cons)

lemma attempt_loop_terminal:
  "\<not> retryable (net E (posts w)) \<Longrightarrow>
   fst (attempt_loop E c ur d p m (k # ks) w) = accepted (net E (posts w)) \<and>
   posts (snd (attempt_loop E c ur d p m (k # ks) w)) = Suc (posts w)"
  by (simp add: attempt_loop_Cons)


lemma sensor_value_ok:
  "(\<exists>v. sensor_value sensors name = Inr v) =
   (case py_get sensors name (PDict []) of Inl e \<Rightarrow> False | Inr s \<Rightarrow> is_dict s)"
  by (cases sensors; simp add: sensor_value_def is_dict_def split: option.splits pyval.splits)

lemma py_get_raises: "py_get v k dflt = Inl e \<Longrightarrow> e = AttributeError"
  by (cases v) simp_all

lemma sensor_value_raises:
  "sensor_value sensors name = Inl e \<Longrightarrow> e = AttributeError"
  by (auto simp: sensor_value_def split: sum.splits dest: py_get_raises)

lemma well_formed_iff:
  "well_formed d =
     (\<exists>sensors t h p l. py_get d ''sensors'' (PDict []) = Inr sensors \<and>
        sensor_value sensors ''temperature'' = Inr t \<and>
        sensor_value sensors ''humidity'' = Inr h \<and>
        sensor_value sensors ''pressure'' = Inr p \<and>
        sensor_value sensors ''light'' = Inr l)"
proof (cases "py_get d ''sensors'' (PDict [])")
  case (Inl e)
  then show ?thesis by (simp add: well_formed_def)
next
  case (Inr sensors)
  show ?thesis
    using sensor_value_ok [of sensors "''temperature''"] sensor_value_ok [of sensors "''humidity''"]
      sensor_value_ok [of sensors "''pressure''"] sensor_value_ok [of sensors "''light''"]
    by (simp add: well_formed_def Inr)
qed

lemma fill_result:
  "fst (fill E w sensors name fb) =
     (case sensor_value sensors name of
        Inl e \<Rightarrow> Inl e
      | Inr v \<Rightarrow> Inr (if v = PNone then fb (now E (ticks w)) else v))"
  by (simp add: fill_def time_time_def split: sum.splits)

lemma fill_fields [simp]:
  "cache (snd (fill E w sensors name fb)) = cache w"
  "disk (snd (fill E w sensors name fb)) = disk w"
  "writes (snd (fill E w sensors name fb)) = writes w"
  "posts (snd (fill E w sensors name fb)) = posts w"
  "trace (snd (fill E w sensors name fb)) = trace w"
  "data_logger (snd (fill E w sensors name fb)) = data_logger w"
  by (simp_all add: fill_def time_time_def split: sum.splits)

lemma fill_frame:
  "fill E w sensors name fb = (r, w') \<Longrightarrow>
   cache w' = cache w \<and> disk w' = disk w \<and> writes w' = writes w \<and>
   posts w' = posts w \<and> trace w' = trace w \<and> data_logger w' = data_logger w"
  using fill_fields [of E w sensors name fb] by simp

lemma build_payload_frame:
  "build_payload E w d = (r, w') \<Longrightarrow>
   cache w' = cache w \<and> disk w' = disk w \<and> writes w' = writes w \<and>
   posts w' = posts w \<and> trace w' = trace w \<and> data_logger w' = data_logger w"
  unfolding build_payload_def
  by (auto split: sum.splits prod.splits dest!: fill_frame)

lemma build_payload_fields [simp]:
  "cache (snd (build_payload E w d)) = cache w"
  "disk (snd (build_payload E w d)) = disk w"
  "writes (snd (build_payload E w d)) = writes w"
  "posts (snd (build_payload E w d)) = posts w"
  "trace (snd (build_payload E w d)) = trace w"
  "data_logger (snd (build_payload E w d)) = data_logger w"
  using build_payload_frame [of E w d "fst (build_payload E w d)" "snd (build_payload E w d)"]
  by simp_all


lemma py_round1_lower:
  assumes "of_int n \<le> x * 10"
  shows "of_int n / 10 \<le> py_round1 x"
proof -
  have "n \<le> \<lfloor>x * 10\<rfloor>" using assms by (simp add: le_floor_iff)
  then have "(of_int n :: real) \<le> of_int \<lfloor>x * 10\<rfloor>" by simp
  then show ?thesis
    by (simp add: py_round1_def Let_def divide_right_mono)
qed

lemma py_round1_upper:
  assumes "x * 10 \<le> of_int n"
  shows "py_round1 x \<le> of_int n / 10"
proof -
  let ?f = "\<lfloor>x * 10\<rfloor>"
  have fl: "?f \<le> n" using assms by (simp add: floor_le_iff)
  show ?thesis
  proof (cases "x * 10 - of_int ?f < 1 / 2")
    case True
    then show ?thesis using fl by (simp add: py_round1_def Let_def divide_right_mono)
  next
    case False
    then have "of_int ?f < x * 10" by linarith
    then have "of_int ?f < (of_int n :: real)" using assms by linarith
    then have "?f + 1 \<le> n" by simp
    then have "(of_int (?f + 1) :: real) \<le> of_int n" and "(of_int ?f :: real) \<le> of_int n"
      using of_int_le_iff fl by blast+
    then show ?thesis
      by (simp add: py_round1_def Let_def divide_right_mono)
  qed
qed

lemma frac_bounds: "0 \<le> frac (t::real)" "frac t < 1"
  by (simp_all add: frac_lt_1)

lemma fallback_temp_range: "\<exists>r. fallback_temp t = PFloat r \<and> 22 \<le> r \<and> r \<le> 24"
  using py_round1_lower [of 220 "22 + 2 * frac t"] py_round1_upper [of "22 + 2 * frac t" 240]
    frac_bounds [of t]
  by (simp add: fallback_temp_def)

lemma fallback_humidity_range: "\<exists>r. fallback_humidity t = PFloat r \<and> 53 \<le> r \<and> r \<le> 57"
  using py_round1_lower [of 530 "53 + 4 * frac t"] py_round1_upper [of "53 + 4 * frac t" 570]
    frac_bounds [of t]
  by (simp add: fallback_humidity_def)

lemma fallback_pressure_range: "\<exists>r. fallback_pressure t = PFloat r \<and> 1012 \<le> r \<and> r \<le> 1014"
  using py_round1_lower [of 10120 "1012 + 2 * frac t"] py_round1_upper [of "1012 + 2 * frac t" 10140]
    frac_bounds [of t]
  by (simp add: fallback_pressure_def)

lemma fallback_light_range: "\<exists>n. fallback_light t = PInt n \<and> 1150 \<le> n \<and> n \<le> 1250"
proof -
  have "0 \<le> 1150 + 100 * frac t" using frac_bounds [of t] by linarith
  moreover have "(1150::int) \<le> \<lfloor>1150 + 100 * frac t\<rfloor>"
    using frac_bounds [of t] by (simp add: le_floor_iff)
  moreover have "\<lfloor>1150 + 100 * frac t\<rfloor> \<le> (1250::int)"
    using frac_bounds [of t] by (simp add: floor_le_iff)
  ultimately show ?thesis by (simp add: fallback_light_def py_int_def)
qed


lemma fill_Inr:
  "fill E w sensors name fb = (Inr v, w') \<Longrightarrow>
   \<exists>x. sensor_value sensors name = Inr x \<and> (x \<noteq> PNone \<longrightarrow> v = x) \<and>
       (x = PNone \<longrightarrow> v = fb (now E (ticks w)))"
  by (auto simp: fill_def time_time_def split: sum.splits if_splits)

lemma fill_Inl:
  "fill E w sensors name fb = (Inl e, w') \<Longrightarrow> sensor_value sensors name = Inl e"
  by (auto simp: fill_def time_time_def split: sum.splits if_splits)

lemma fill_total:
  "sensor_value sensors name = Inr x \<Longrightarrow> \<exists>v w'. fill E w sensors name fb = (Inr v, w')"
  by (simp add: fill_def time_time_def)

lemma usv_mk_payload [simp]:
  "usv (mk_payload t h p l) ''temp'' = Some t"
  "usv (mk_payload t h p l) ''humidity'' = Some h"
  "usv (mk_payload t h p l) ''pressure'' = Some p"
  "usv (mk_payload t h p l) ''light'' = Some l"
  by (simp_all add: usv_def mk_payload_def)

lemma build_payload_Inr:
  assumes "build_payload E w d = (Inr payload, w')"
  shows "\<exists>t h p l xt xh xp xl tt th tp tl.
           payload = mk_payload t h p l \<and>
           reading d ''temperature'' = Inr xt \<and> (xt \<noteq> PNone \<longrightarrow> t = xt) \<and>
             (xt = PNone \<longrightarrow> t = fallback_temp tt) \<and>
           reading d ''humidity'' = Inr xh \<and> (xh \<noteq> PNone \<longrightarrow> h = xh) \<and>
             (xh = PNone \<longrightarrow> h = fallback_humidity th) \<and>
           reading d ''pressure'' = Inr xp \<and> (xp \<noteq> PNone \<longrightarrow> p = xp) \<and>
             (xp = PNone \<longrightarrow> p = fallback_pressure tp) \<and>
           reading d ''light'' = Inr xl \<and> (xl \<noteq> PNone \<longrightarrow> l = xl) \<and>
             (xl = PNone \<longrightarrow> l = fallback_light tl)"
proof -
  from assms obtain sensors where s: "py_get d ''sensors'' (PDict []) = Inr sensors"
    by (auto simp: build_payload_def split: sum.splits)
  from assms s obtain t w1 where f1: "fill E w sensors ''temperature'' fallback_temp = (Inr t, w1)"
    by (auto simp: build_payload_def split: sum.splits prod.splits)
  from assms s f1 obtain h w2 where f2: "fill E w1 sensors ''humidity'' fallback_humidity = (Inr h, w2)"
    by (auto simp: build_payload_def split: sum.splits prod.splits)
  from assms s f1 f2 obtain p w3 where f3: "fill E w2 sensors ''pressure'' fallback_pressure = (Inr p, w3)"
    by (auto simp: build_payload_def split: sum.splits prod.splits)
  from assms s f1 f2 f3 obtain l w4 where f4: "fill E w3 sensors ''light'' fallback_light = (Inr l, w4)"
    by (auto simp: build_payload_def split: sum.splits prod.splits)
  from assms s f1 f2 f3 f4 have pl: "payload = mk_payload t h p l"
    by (simp add: build_payload_def)
  from fill_Inr [OF f1] fill_Inr [OF f2] fill_Inr [OF f3] fill_Inr [OF f4] pl s
  show ?thesis by (simp add: reading_def) blast
qed

lemma build_payload_Inl:
  assumes "build_payload E w d = (Inl e, w')"
  shows "e = AttributeError \<and> \<not> well_formed d"
proof (cases "py_get d ''sensors'' (PDict [])")
  case (Inl e')
  with assms show ?thesis
    by (auto simp: build_payload_def well_formed_def dest: py_get_raises)
next
  case (Inr sensors)
  from assms Inr have "\<exists>name \<in> {''temperature'', ''humidity'', ''pressure'', ''light''}.
      sensor_value sensors name = Inl e"
    by (auto simp: build_payload_def split: sum.splits prod.splits dest: fill_Inl)
  then show ?thesis
    using well_formed_iff [of d] Inr by (auto dest: sensor_value_raises)
qed

lemma build_payload_total:
  assumes "well_formed d"
  shows "\<exists>payload. fst (build_payload E w d) = Inr payload"
proof (cases "build_payload E w d")
  case (Pair r w')
  show ?thesis
  proof (cases r)
    case (Inl e)
    with Pair assms build_payload_Inl show ?thesis by blast
  next
    case (Inr payload)
    with Pair show ?thesis by simp
  qed
qed


lemma upload_single_Inr:
  "build_payload E w d = (Inr p, w1) \<Longrightarrow>
   upload_single E c w d ur =
     (Inr (fst (attempt_loop E c ur d p (if ur then retry_times c else 1)
                  [1..(if ur then retry_times c else 1)] w1)),
      snd (attempt_loop E c ur d p (if ur then retry_times c else 1)
                  [1..(if ur then retry_times c else 1)] w1))"
  by (simp add: upload_single_def Let_def split: prod.splits)

lemma upload_single_Inl:
  "build_payload E w d = (Inl e, w1) \<Longrightarrow> upload_single E c w d ur = (Inl e, w1)"
  by (simp add: upload_single_def)

lemma upload_single_fields [simp]:
  "cache (snd (upload_single E c w d ur)) = cache w"
  "disk (snd (upload_single E c w d ur)) = disk w"
  "writes (snd (upload_single E c w d ur)) = writes w"
  "data_logger (snd (upload_single E c w d ur)) = data_logger w"
proof -
  obtain r w1 where bp: "build_payload E w d = (r, w1)" by (cases "build_payload E w d")
  from build_payload_frame [OF bp] have fr: "cache w1 = cache w" "disk w1 = disk w"
    "writes w1 = writes w" "data_logger w1 = data_logger w" by simp_all
  show "cache (snd (upload_single E c w d ur)) = cache w"
    "disk (snd (upload_single E c w d ur)) = disk w"
    "writes (snd (upload_single E c w d ur)) = writes w"
    "data_logger (snd (upload_single E c w d ur)) = data_logger w"
    using bp fr by (cases r; simp add: upload_single_Inr upload_single_Inl)+
qed

lemma upload_single_raises:
  "fst (upload_single E c w d ur) = Inl e \<Longrightarrow> e = AttributeError \<and> \<not> well_formed d"
proof -
  assume a: "fst (upload_single E c w d ur) = Inl e"
  obtain r w1 where bp: "build_payload E w d = (r, w1)" by (cases "build_payload E w d")
  show ?thesis
  proof (cases r)
    case (Inl e')
    with bp a have "e' = e" by (simp add: upload_single_Inl)
    with Inl bp build_payload_Inl show ?thesis by blast
  next
    case (Inr p)
    with bp a show ?thesis by (simp add: upload_single_Inr)
  qed
qed

lemma upload_single_returns:
  "well_formed d \<Longrightarrow> \<exists>b. fst (upload_single E c w d ur) = Inr b"
  using upload_single_raises [of E c w d ur] by (cases "fst (upload_single E c w d ur)") auto

lemma upload_single_once:
  assumes "well_formed d"
  shows "fst (upload_single E c w d False) = Inr (accepted (net E (posts w))) \<and>
         posts (snd (upload_single E c w d False)) = Suc (posts w) \<and>
         deliveries (trace (snd (upload_single E c w d False))) =
           deliveries (trace w) @ [(d, net E (posts w))] \<and>
         timeline (trace (snd (upload_single E c w d False))) = timeline (trace w) @ [Att]"
proof -
  from build_payload_total [OF assms, of E w] obtain p w1
    where bp: "build_payload E w d = (Inr p, w1)" by (cases "build_payload E w d") auto
  from build_payload_frame [OF bp] have fr: "posts w1 = posts w" "trace w1 = trace w" by simp_all
  have one: "[1..1::int] = [1]" by (simp add: upto_rec1)
  show ?thesis
    using not_retryable_accepted [of "net E (posts w)"]
    by (auto simp: upload_single_Inr [OF bp] one attempt_loop_Cons fr backoff_timeline)
qed


lemma attempts_trace:
  "deliveries tr' = deliveries tr @ ds \<Longrightarrow> attempts tr' = attempts tr + length ds"
  by (simp add: attempts_def)

lemma upload_single_retry:
  assumes "well_formed d"
  shows "\<exists>b w'. upload_single E c w d ur = (Inr b, w') \<and>
           posts w \<le> posts w' \<and>
           deliveries (trace w') = deliveries (trace w) @ map (\<lambda>i. (d, net E i)) [posts w..<posts w'] \<and>
           acked (trace w') = acked (trace w) @ (if b then [d] else [])"
proof -
  from build_payload_total [OF assms, of E w] obtain p w1
    where bp: "build_payload E w d = (Inr p, w1)" by (cases "build_payload E w d") auto
  from build_payload_frame [OF bp] have fr: "posts w1 = posts w" "trace w1 = trace w" by simp_all
  let ?m = "if ur then retry_times c else 1"
  from attempt_loop_deliveries [of w1 E c ur d p ?m "[1..?m]"] fr
  show ?thesis unfolding upload_single_Inr [OF bp] by simp
qed

lemma attempt_loop_last:
  "posts w \<le> j \<Longrightarrow> j < posts (snd (attempt_loop E c ur d p m ks w)) \<Longrightarrow>
   \<not> retryable (net E j) \<Longrightarrow>
   posts (snd (attempt_loop E c ur d p m ks w)) = Suc j \<and>
   fst (attempt_loop E c ur d p m ks w) = accepted (net E j)"
proof (induction ks arbitrary: w)
  case Nil
  then show ?case by (cases ur) simp_all
next
  case (Cons k ks)
  let ?w2 = "backoff ur m k (snd (attempt_once E c ur d p m k w))"
  show ?case
  proof (cases "retryable (net E (posts w))")
    case False
    then have one: "attempt_loop E c ur d p m (k # ks) w =
        (accepted (net E (posts w)), snd (attempt_once E c ur d p m k w))"
      by (simp add: attempt_loop_Cons)
    from Cons.prems(1,2) have "j = posts w" unfolding one by simp
    then show ?thesis unfolding one by simp
  next
    case True
    then have step: "attempt_loop E c ur d p m (k # ks) w = attempt_loop E c ur d p m ks ?w2"
      by (simp add: attempt_loop_Cons)
    from True Cons.prems(3) have "j \<noteq> posts w" by auto
    with Cons.prems(1) have "posts ?w2 \<le> j" by simp
    from Cons.IH [OF this] Cons.prems(2,3) show ?thesis unfolding step by simp
  qed
qed

lemma upload_single_last:
  assumes "well_formed d" and "posts w \<le> j" and "j < posts (snd (upload_single E c w d ur))"
    and "\<not> retryable (net E j)"
  shows "posts (snd (upload_single E c w d ur)) = Suc j \<and>
         fst (upload_single E c w d ur) = Inr (accepted (net E j))"
proof -
  from build_payload_total [OF assms(1), of E w] obtain p w1
    where bp: "build_payload E w d = (Inr p, w1)" by (cases "build_payload E w d") auto
  from build_payload_frame [OF bp] have fr: "posts w1 = posts w" by simp
  let ?m = "if ur then retry_times c else 1"
  from attempt_loop_last [of w1 j E c ur d p ?m "[1..?m]"] assms(2,3,4) fr
  show ?thesis unfolding upload_single_Inr [OF bp] by simp
qed

section \<open>Terminal and retryable failures\<close>

text \<open>
  Claim C3. In a delivery with retry, a 200 response whose JSON body has \<^verbatim>\<open>ok: false\<close> ends
  the delivery with failure: the request it answers is the last one, so that when it
  answers the first request exactly one attempt is made. A timeout or connection error on
  every attempt ends the delivery with failure after exactly the configured number of
  attempts.
\<close>

theorem terminal_vs_retryable:
  assumes "well_formed d"
  shows "(\<forall>j kvs. posts w \<le> j \<and> j < posts (snd (upload_single E c w d True)) \<and>
            net E j = Response 200 (Json (PDict kvs)) \<and>
            map_of kvs ''ok'' = Some (PBool False) \<longrightarrow>
              fst (upload_single E c w d True) = Inr False \<and>
              posts (snd (upload_single E c w d True)) = Suc j) \<and>
         (1 \<le> retry_times c \<and> net E (posts w) = Response 200 (Json (PDict kvs0)) \<and>
          map_of kvs0 ''ok'' = Some (PBool False) \<longrightarrow>
            fst (upload_single E c w d True) = Inr False \<and>
            attempts (trace (snd (upload_single E c w d True))) = attempts (trace w) + 1) \<and>
         ((\<forall>i. net E i = Timeout \<or> net E i = ConnectionError) \<longrightarrow>
            fst (upload_single E c w d True) = Inr False \<and>
            attempts (trace (snd (upload_single E c w d True))) =
              attempts (trace w) + nat (retry_times c))"
proof -
  from build_payload_total [OF assms, of E w] obtain p w1
    where bp: "build_payload E w d = (Inr p, w1)" by (cases "build_payload E w d") auto
  from build_payload_frame [OF bp] have fr: "posts w1 = posts w" "trace w1 = trace w" by simp_all
  let ?m = "retry_times c"
  let ?r = "attempt_loop E c True d p ?m [1..?m] w1"
  have us: "upload_single E c w d True = (Inr (fst ?r), snd ?r)"
    using upload_single_Inr [OF bp, of c True] by simp
  have dl: "deliveries (trace (snd ?r)) =
      deliveries (trace w) @ map (\<lambda>i. (d, net E i)) [posts w..<posts (snd ?r)]"
    using attempt_loop_deliveries [of w1 E c True d p ?m "[1..?m]"] fr by simp
  have at: "attempts (trace (snd ?r)) = attempts (trace w) + (posts (snd ?r) - posts w)"
    using attempts_trace [OF dl] by simp
  have last: "fst ?r = False \<and> posts (snd ?r) = Suc j"
    if "posts w \<le> j" "j < posts (snd ?r)" "net E j = Response 200 (Json (PDict kvs))"
       "map_of kvs ''ok'' = Some (PBool False)" for j kvs
  proof -
    have "\<not> retryable (net E j)" "\<not> accepted (net E j)" using that(3,4) by simp_all
    with attempt_loop_last [of w1 j E c True d p ?m "[1..?m]"] that(1,2) fr
    show ?thesis by simp
  qed
  have terminal: "fst ?r = False \<and> posts (snd ?r) = Suc (posts w)"
    if "1 \<le> ?m" "net E (posts w) = Response 200 (Json (PDict kvs0))"
       "map_of kvs0 ''ok'' = Some (PBool False)"
  proof -
    have "[1..?m] = 1 # [2..?m]" using that(1) by (simp add: upto_rec1)
    moreover have "\<not> retryable (net E (posts w1))" "\<not> accepted (net E (posts w1))"
      using that fr by simp_all
    ultimately show ?thesis using attempt_loop_terminal [of E w1 c True d p ?m 1 "[2..?m]"] fr
      by simp
  qed
  have exhausted: "fst ?r = False \<and> posts (snd ?r) = posts w + nat ?m"
    if "\<forall>i. net E i = Timeout \<or> net E i = ConnectionError"
  proof -
    have "\<forall>i. retryable (net E i)"
    proof
      fix i from that have "net E i = Timeout \<or> net E i = ConnectionError" by blast
      then show "retryable (net E i)" by auto
    qed
    from attempt_loop_all_retryable [OF this, of c True d p ?m "[1..?m]" w1] fr
    show ?thesis by simp
  qed
  show ?thesis unfolding us fst_conv snd_conv
    using last terminal exhausted at by (intro conjI allI impI) (blast, simp_all)
qed

theorem terminal_vs_retryable_witness:
  "well_formed test_data \<and> 1 \<le> retry_times mock_config \<and>
   net (sample_env (\<lambda>i. rejecting) (\<lambda>i. WriteOk)) (posts fresh_world) =
     Response 200 (Json (PDict [(''ok'', PBool False), (''err'', PStr ''bad payload'')])) \<and>
   fst (upload_single (sample_env (\<lambda>i. rejecting) (\<lambda>i. WriteOk)) mock_config fresh_world
          test_data True) = Inr False \<and>
   attempts (trace (snd (upload_single (sample_env (\<lambda>i. rejecting) (\<lambda>i. WriteOk)) mock_config
          fresh_world test_data True))) = 1 \<and>
   (\<forall>i. net (sample_env (\<lambda>i. Timeout) (\<lambda>i. WriteOk)) i = Timeout) \<and>
   fst (upload_single (sample_env (\<lambda>i. Timeout) (\<lambda>i. WriteOk)) mock_config fresh_world
          test_data True) = Inr False \<and>
   attempts (trace (snd (upload_single (sample_env (\<lambda>i. Timeout) (\<lambda>i. WriteOk)) mock_config
          fresh_world test_data True))) = 3"
proof -
  have wf: "well_formed test_data"
    by (simp add: well_formed_def test_data_def is_dict_def)
  show ?thesis
    using wf
      terminal_vs_retryable [OF wf, where c = mock_config
        and E = "sample_env (\<lambda>i. rejecting) (\<lambda>i. WriteOk)" and w = fresh_world
        and ?kvs0.0 = "[(''ok'', PBool False), (''err'', PStr ''bad payload'')]"]
      terminal_vs_retryable [OF wf, where c = mock_config
        and E = "sample_env (\<lambda>i. Timeout) (\<lambda>i. WriteOk)" and w = fresh_world
        and ?kvs0.0 = "[]"]
    by (simp add: sample_env_def mock_config_def fresh_world_def rejecting_def attempts_def)
qed

section \<open>The backoff schedule\<close>

text \<open>
  Claim C4. In a delivery with retry the requests and sleeps follow the schedule: after
  attempt \<open>k\<close>, when another attempt follows, the code sleeps \<open>2 ^ k\<close> seconds, and it
  does not sleep after the last attempt. At most the configured number of attempts is
  made, and exactly that many when every attempt fails retryably.
\<close>

theorem backoff_schedule:
  assumes "well_formed d"
  shows "timeline (trace (snd (upload_single E c w d True))) =
           timeline (trace w) @
             schedule 1 (attempts (trace (snd (upload_single E c w d True))) - attempts (trace w)) \<and>
         attempts (trace (snd (upload_single E c w d True))) - attempts (trace w)
           \<le> nat (retry_times c) \<and>
         ((\<forall>i. retryable (net E i)) \<longrightarrow>
            attempts (trace (snd (upload_single E c w d True))) - attempts (trace w)
              = nat (retry_times c))"
proof -
  from build_payload_total [OF assms, of E w] obtain p w1
    where bp: "build_payload E w d = (Inr p, w1)" by (cases "build_payload E w d") auto
  from build_payload_frame [OF bp] have fr: "posts w1 = posts w" "trace w1 = trace w" by simp_all
  let ?m = "retry_times c"
  let ?r = "attempt_loop E c True d p ?m [1..?m] w1"
  have us: "upload_single E c w d True = (Inr (fst ?r), snd ?r)"
    using upload_single_Inr [OF bp, of c True] by simp
  have dl: "deliveries (trace (snd ?r)) =
      deliveries (trace w) @ map (\<lambda>i. (d, net E i)) [posts w..<posts (snd ?r)]"
    using attempt_loop_deliveries [of w1 E c True d p ?m "[1..?m]"] fr by simp
  have at: "attempts (trace (snd ?r)) - attempts (trace w) = posts (snd ?r) - posts w"
    using attempts_trace [OF dl] by simp
  from attempt_loop_schedule [of w1 E c d p ?m 1] fr
  have sch: "timeline (trace (snd ?r)) = timeline (trace w) @ schedule 1 (posts (snd ?r) - posts w)"
    and ub: "posts (snd ?r) \<le> posts w + nat ?m" by simp_all
  have ex: "posts (snd ?r) = posts w + nat ?m" if "\<forall>i. retryable (net E i)"
    using attempt_loop_all_retryable [OF that, of c True d p ?m "[1..?m]" w1] fr by simp
  show ?thesis unfolding us using sch ub ex at by auto
qed

lemma schedule_length: "length (schedule k n) = 2 * n - 1"
  by (induction k n rule: schedule.induct) simp_all

lemma schedule_waits:
  "i < n \<Longrightarrow> schedule k n ! (2 * i) = Att \<and>
     (Suc i < n \<longrightarrow> schedule k n ! (2 * i + 1) = Wait (2 ^ nat (k + int i)))"
proof (induction k n arbitrary: i rule: schedule.induct)
  case (1 k)
  then show ?case by simp
next
  case (2 k)
  then show ?case by simp
next
  case (3 k n)
  show ?case
  proof (cases i)
    case 0
    then show ?thesis by simp
  next
    case (Suc j)
    with 3 have "j < Suc n" by simp
    from "3.IH" [OF this] Suc show ?thesis by (simp add: add.commute add.left_commute)
  qed
qed

theorem backoff_schedule_witness:
  "well_formed test_data \<and>
   (\<forall>i. retryable (net (sample_env (\<lambda>i. Timeout) (\<lambda>i. WriteOk)) i)) \<and>
   timeline (trace (snd (upload_single (sample_env (\<lambda>i. Timeout) (\<lambda>i. WriteOk)) mock_config
      fresh_world test_data True))) = [Att, Wait 2, Att, Wait 4, Att]"
proof -
  have wf: "well_formed test_data"
    by (simp add: well_formed_def test_data_def is_dict_def)
  have sch: "schedule 1 3 = [Att, Wait 2, Att, Wait 4, Att]"
    by (simp add: numeral_3_eq_3)
  show ?thesis
    using wf backoff_schedule [OF wf, of "sample_env (\<lambda>i. Timeout) (\<lambda>i. WriteOk)" mock_config
      fresh_world]
    by (simp add: sample_env_def mock_config_def fresh_world_def sch)
qed

section \<open>The fallback for missing sensor values\<close>

text \<open>
  Claim C8. Every payload that \<^verbatim>\<open>_upload_single\<close> builds carries a non-null temperature,
  humidity, pressure and light; a value the input has is passed through unchanged, and a
  value the input lacks is replaced by one in \<open>[22, 24]\<close>, \<open>[53, 57]\<close>, \<open>[1012, 1014]\<close>
  and, an integer, \<open>[1150, 1250]\<close> respectively. A payload is built for every well-formed
  reading set.
\<close>

theorem missing_sensor_fallback:
  "(well_formed d \<longrightarrow> (\<exists>payload. fst (build_payload E w d) = Inr payload)) \<and>
   (\<forall>payload. fst (build_payload E w d) = Inr payload \<longrightarrow>
      carried d ''temperature'' payload ''temp'' (float_between 22 24) \<and>
      carried d ''humidity'' payload ''humidity'' (float_between 53 57) \<and>
      carried d ''pressure'' payload ''pressure'' (float_between 1012 1014) \<and>
      carried d ''light'' payload ''light'' (int_between 1150 1250))"
proof (intro conjI allI impI)
  assume "well_formed d"
  then show "\<exists>payload. fst (build_payload E w d) = Inr payload"
    by (rule build_payload_total)
next
  fix payload
  assume "fst (build_payload E w d) = Inr payload"
  then have bp: "build_payload E w d = (Inr payload, snd (build_payload E w d))"
    by (metis prod.collapse)
  from build_payload_Inr [OF bp] obtain t h p l xt xh xp xl tt th tp tl where
    pl: "payload = mk_payload t h p l" and
    t: "reading d ''temperature'' = Inr xt" "xt \<noteq> PNone \<longrightarrow> t = xt"
       "xt = PNone \<longrightarrow> t = fallback_temp tt" and
    h: "reading d ''humidity'' = Inr xh" "xh \<noteq> PNone \<longrightarrow> h = xh"
       "xh = PNone \<longrightarrow> h = fallback_humidity th" and
    p: "reading d ''pressure'' = Inr xp" "xp \<noteq> PNone \<longrightarrow> p = xp"
       "xp = PNone \<longrightarrow> p = fallback_pressure tp" and
    l: "reading d ''light'' = Inr xl" "xl \<noteq> PNone \<longrightarrow> l = xl"
       "xl = PNone \<longrightarrow> l = fallback_light tl"
    by blast
  show "carried d ''temperature'' payload ''temp'' (float_between 22 24)"
    using t fallback_temp_range [of tt] by (auto simp: carried_def pl float_between_def)
  show "carried d ''humidity'' payload ''humidity'' (float_between 53 57)"
    using h fallback_humidity_range [of th] by (auto simp: carried_def pl float_between_def)
  show "carried d ''pressure'' payload ''pressure'' (float_between 1012 1014)"
    using p fallback_pressure_range [of tp] by (auto simp: carried_def pl float_between_def)
  show "carried d ''light'' payload ''light'' (int_between 1150 1250)"
    using l fallback_light_range [of tl] by (auto simp: carried_def pl int_between_def)
qed

theorem missing_sensor_fallback_witness:
  "well_formed partial_data \<and>
   fst (build_payload (sample_env (\<lambda>i. Timeout) (\<lambda>i. WriteOk)) fresh_world partial_data) =
     Inr (mk_payload (PFloat 23.1) (PFloat 54) (PFloat 1012.5) (PInt 960)) \<and>
   carried partial_data ''temperature''
     (mk_payload (PFloat 23.1) (PFloat 54) (PFloat 1012.5) (PInt 960)) ''temp''
     (float_between 22 24) \<and>
   carried partial_data ''humidity''
     (mk_payload (PFloat 23.1) (PFloat 54) (PFloat 1012.5) (PInt 960)) ''humidity''
     (float_between 53 57) \<and>
   carried partial_data ''pressure''
     (mk_payload (PFloat 23.1) (PFloat 54) (PFloat 1012.5) (PInt 960)) ''pressure''
     (float_between 1012 1014) \<and>
   carried partial_data ''light''
     (mk_payload (PFloat 23.1) (PFloat 54) (PFloat 1012.5) (PInt 960)) ''light''
     (int_between 1150 1250)"
proof -
  have wf: "well_formed partial_data"
    by (simp add: well_formed_def partial_data_def is_dict_def)
  have built:
    "fst (build_payload (sample_env (\<lambda>i. Timeout) (\<lambda>i. WriteOk)) fresh_world partial_data) =
       Inr (mk_payload (PFloat 23.1) (PFloat 54) (PFloat 1012.5) (PInt 960))"
    by (simp add: build_payload_def fill_def sensor_value_def partial_data_def time_time_def
        sample_env_def fresh_world_def fallback_humidity_def fallback_pressure_def
        py_round1_def Let_def frac_def)
  show ?thesis
    using wf built
      missing_sensor_fallback [of partial_data "sample_env (\<lambda>i. Timeout) (\<lambda>i. WriteOk)"
        fresh_world]
    by simp
qed

lemma load_cache_returns: "fst (load_cache E w) = Inr ()"
  by (simp add: load_cache_def split: prod.splits sum.splits)

lemma load_cache_missing:
  "disk w = Missing \<Longrightarrow> load_cache E w = (Inr (), w\<lparr>cache := PList []\<rparr>)"
  by (simp add: load_cache_def)

lemma load_cache_corrupt:
  "disk w = Unreadable \<or> (\<exists>t. disk w = Text t \<and> json_load E t = None) \<Longrightarrow>
   load_cache E w = (Inr (), (logger Warning CacheLoadFailed w)\<lparr>cache := PList []\<rparr>)"
  by (auto simp: load_cache_def load_try_def)

lemma load_cache_list:
  "disk w = Text t \<Longrightarrow> json_load E t = Some (PList q) \<Longrightarrow>
   cache (snd (load_cache E w)) = PList q"
  by (simp add: load_cache_def load_try_def Let_def)

lemma save_cache_returns: "fst (save_cache E w) = Inr ()"
  by (simp add: save_cache_def split: prod.splits sum.splits)

lemma save_cache_fields [simp]:
  "cache (snd (save_cache E w)) = cache w"
  "posts (snd (save_cache E w)) = posts w"
  "writes (snd (save_cache E w)) = Suc (writes w)"
  "data_logger (snd (save_cache E w)) = data_logger w"
  "deliveries (trace (snd (save_cache E w))) = deliveries (trace w)"
  "timeline (trace (snd (save_cache E w))) = timeline (trace w)"
  "acked (trace (snd (save_cache E w))) = acked (trace w)"
  by (simp_all add: save_cache_def save_try_def Let_def acked_def
      split: prod.splits sum.splits write_outcome.splits)

lemma save_cache_ok:
  "wr E (writes w) = WriteOk \<Longrightarrow> disk (snd (save_cache E w)) = Text (json_dump E (cache w))"
  by (simp add: save_cache_def save_try_def Let_def split: prod.splits sum.splits)

lemma save_cache_list:
  "cache w = PList q \<Longrightarrow>
   trace (snd (save_cache E w)) =
     trace w @ [if wr E (writes w) = WriteOk then EvLog Debug (CacheSaved (length q))
                else EvLog Error CacheSaveFailed]"
  by (simp add: save_cache_def save_try_def Let_def split: prod.splits sum.splits write_outcome.splits)


section \<open>Loading the spill queue\<close>

text \<open>
  Claim C9. \<^verbatim>\<open>_load_cache\<close> never raises, whatever the cache file holds. When the file is
  missing the queue is left empty and nothing is logged; when the file cannot be read or
  is not valid JSON a warning is logged and the queue is empty.
\<close>

theorem soft_failing_load:
  "fst (load_cache E w) = Inr () \<and>
   (disk w = Missing \<longrightarrow>
      cache (snd (load_cache E w)) = PList [] \<and> trace (snd (load_cache E w)) = trace w) \<and>
   (disk w = Unreadable \<or> (\<exists>t. disk w = Text t \<and> json_load E t = None) \<longrightarrow>
      cache (snd (load_cache E w)) = PList [] \<and>
      trace (snd (load_cache E w)) = trace w @ [EvLog Warning CacheLoadFailed])"
  using load_cache_returns [of E w] load_cache_missing [of w E] load_cache_corrupt [of w E]
  by auto

theorem soft_failing_load_witness:
  "disk fresh_world = Missing \<and>
   load_cache (sample_env (\<lambda>i. Timeout) (\<lambda>i. WriteOk)) fresh_world = (Inr (), fresh_world) \<and>
   disk (fresh_world\<lparr>disk := Unreadable\<rparr>) = Unreadable \<and>
   cache (snd (load_cache (sample_env (\<lambda>i. Timeout) (\<lambda>i. WriteOk))
                 (fresh_world\<lparr>disk := Unreadable\<rparr>))) = PList [] \<and>
   json_load (sample_env (\<lambda>i. Timeout) (\<lambda>i. WriteOk)) (Inl ''[{'') = None \<and>
   cache (snd (load_cache (sample_env (\<lambda>i. Timeout) (\<lambda>i. WriteOk))
                 (fresh_world\<lparr>disk := Text (Inl ''[{'')\<rparr>))) = PList [] \<and>
   trace (snd (load_cache (sample_env (\<lambda>i. Timeout) (\<lambda>i. WriteOk))
                 (fresh_world\<lparr>disk := Text (Inl ''[{'')\<rparr>))) = [EvLog Warning CacheLoadFailed]"
  using soft_failing_load [of "sample_env (\<lambda>i. Timeout) (\<lambda>i. WriteOk)" fresh_world]
    soft_failing_load [of "sample_env (\<lambda>i. Timeout) (\<lambda>i. WriteOk)"
      "fresh_world\<lparr>disk := Unreadable\<rparr>"]
    soft_failing_load [of "sample_env (\<lambda>i. Timeout) (\<lambda>i. WriteOk)"
      "fresh_world\<lparr>disk := Text (Inl ''[{'')\<rparr>"]
  by (simp add: sample_env_def fresh_world_def load_cache_def)

section \<open>Saving and reloading\<close>

text \<open>
  Claim C6. Saving a queue with \<^verbatim>\<open>_save_cache\<close> and loading it again, with \<^verbatim>\<open>_load_cache\<close> or
  in the constructor of a new process, gives the same queue: the same entries in the same
  order. Saving means that the write went through, and the JSON codec is taken to read
  back the queue it wrote.
\<close>

theorem reload_round_trip:
  assumes "cache w = PList q" and "wr E (writes w) = WriteOk"
    and "json_load E (json_dump E (PList q)) = Some (PList q)"
  shows "cache (snd (load_cache E (snd (save_cache E w)))) = PList q \<and>
         (enable_cache c \<longrightarrow>
            cache (snd (uploader_init E c (snd (save_cache E w)))) = PList q)"
proof -
  let ?w' = "snd (save_cache E w)"
  have d: "disk ?w' = Text (json_dump E (PList q))"
    using save_cache_ok [OF assms(2)] assms(1) by simp
  have "cache (snd (load_cache E ?w')) = PList q"
    using load_cache_list [OF d assms(3)] .
  moreover have d': "disk (?w'\<lparr>data_logger := False, cache := PList []\<rparr>) = Text (json_dump E (PList q))"
    using d by simp
  have "cache (snd (load_cache E (?w'\<lparr>data_logger := False, cache := PList []\<rparr>))) = PList q"
    using load_cache_list [OF d' assms(3)] .
  ultimately show ?thesis by (simp add: uploader_init_def Let_def)
qed

theorem reload_round_trip_witness:
  "cache (fresh_world\<lparr>cache := PList [test_data, partial_data]\<rparr>) =
     PList [test_data, partial_data] \<and>
   wr (sample_env (\<lambda>i. Timeout) (\<lambda>i. WriteOk))
     (writes (fresh_world\<lparr>cache := PList [test_data, partial_data]\<rparr>)) = WriteOk \<and>
   json_load (sample_env (\<lambda>i. Timeout) (\<lambda>i. WriteOk))
     (json_dump (sample_env (\<lambda>i. Timeout) (\<lambda>i. WriteOk)) (PList [test_data, partial_data])) =
     Some (PList [test_data, partial_data]) \<and>
   enable_cache mock_config \<and>
   cache (snd (uploader_init (sample_env (\<lambda>i. Timeout) (\<lambda>i. WriteOk)) mock_config
     (snd (save_cache (sample_env (\<lambda>i. Timeout) (\<lambda>i. WriteOk))
        (fresh_world\<lparr>cache := PList [test_data, partial_data]\<rparr>))))) =
     PList [test_data, partial_data]"
  using reload_round_trip [of "fresh_world\<lparr>cache := PList [test_data, partial_data]\<rparr>"
      "[test_data, partial_data]" "sample_env (\<lambda>i. Timeout) (\<lambda>i. WriteOk)" mock_config]
  by (simp add: sample_env_def fresh_world_def mock_config_def)

lemma add_to_cache_list:
  assumes "enable_cache c" and "cache w = PList q"
  shows "add_to_cache E c w d =
           (Inr (), logger Info (CachedLocally (Suc (length q)))
                      (snd (save_cache E (w\<lparr>cache := PList (q @ [d])\<rparr>))))"
proof -
  let ?w1 = "w\<lparr>cache := PList (q @ [d])\<rparr>"
  obtain w2 where sv: "save_cache E ?w1 = (Inr (), w2)"
    using save_cache_returns [of E ?w1] by (cases "save_cache E ?w1") auto
  have "cache w2 = PList (q @ [d])"
    using save_cache_fields(1) [of E ?w1] sv by simp
  then show ?thesis
    using assms sv by (simp add: add_to_cache_def)
qed

lemma add_to_cache_off:
  "\<not> enable_cache c \<Longrightarrow> add_to_cache E c w d = (Inr (), w)"
  by (simp add: add_to_cache_def)

section \<open>Appending to the spill queue\<close>

text \<open>
  Claim C7, as the code has it. With caching enabled, \<^verbatim>\<open>_add_to_cache\<close> puts the entry at
  the tail of the queue and writes the whole queue to the cache file before it returns.
  When the write fails nothing is raised and the entry is in the queue in memory all the
  same; the failure is logged at error level inside \<^verbatim>\<open>_save_cache\<close> and the caller gets
  the same \<^verbatim>\<open>None\<close> as after a successful write.
\<close>

theorem append_durable:
  assumes "enable_cache c" and "cache w = PList q"
  shows "fst (add_to_cache E c w d) = Inr () \<and>
         cache (snd (add_to_cache E c w d)) = PList (q @ [d]) \<and>
         (wr E (writes w) = WriteOk \<longrightarrow>
            disk (snd (add_to_cache E c w d)) = Text (json_dump E (PList (q @ [d]))) \<and>
            trace (snd (add_to_cache E c w d)) =
              trace w @ [EvLog Debug (CacheSaved (Suc (length q))),
                         EvLog Info (CachedLocally (Suc (length q)))]) \<and>
         (wr E (writes w) \<noteq> WriteOk \<longrightarrow>
            trace (snd (add_to_cache E c w d)) =
              trace w @ [EvLog Error CacheSaveFailed,
                         EvLog Info (CachedLocally (Suc (length q)))])"
proof -
  let ?w1 = "w\<lparr>cache := PList (q @ [d])\<rparr>"
  have c1: "cache ?w1 = PList (q @ [d])" by simp
  have "wr E (writes ?w1) = WriteOk \<Longrightarrow>
      disk (snd (save_cache E ?w1)) = Text (json_dump E (PList (q @ [d])))"
    using save_cache_ok [of E ?w1] by simp
  then show ?thesis
    using save_cache_list [OF c1, of E]
    by (simp add: add_to_cache_list [OF assms])
qed

theorem append_durable_witness:
  "enable_cache mock_config \<and> cache fresh_world = PList [] \<and>
   wr (sample_env (\<lambda>i. Timeout) (\<lambda>i. WriteOk)) (writes fresh_world) = WriteOk \<and>
   disk (snd (add_to_cache (sample_env (\<lambda>i. Timeout) (\<lambda>i. WriteOk)) mock_config fresh_world
                test_data)) = Text (Inr (PList [test_data])) \<and>
   wr (sample_env (\<lambda>i. Timeout) (\<lambda>i. OpenFails)) (writes fresh_world) \<noteq> WriteOk \<and>
   cache (snd (add_to_cache (sample_env (\<lambda>i. Timeout) (\<lambda>i. OpenFails)) mock_config fresh_world
                test_data)) = PList [test_data] \<and>
   disk (snd (add_to_cache (sample_env (\<lambda>i. Timeout) (\<lambda>i. OpenFails)) mock_config fresh_world
                test_data)) = Missing \<and>
   trace (snd (add_to_cache (sample_env (\<lambda>i. Timeout) (\<lambda>i. OpenFails)) mock_config fresh_world
                test_data)) = [EvLog Error CacheSaveFailed, EvLog Info (CachedLocally 1)]"
proof -
  have dsk: "disk (snd (add_to_cache (sample_env (\<lambda>i. Timeout) (\<lambda>i. OpenFails)) mock_config
      fresh_world test_data)) = Missing"
    by (simp add: add_to_cache_def save_cache_def save_try_def sample_env_def mock_config_def
        fresh_world_def Let_def)
  show ?thesis
    using dsk
      append_durable [of mock_config fresh_world "[]" "sample_env (\<lambda>i. Timeout) (\<lambda>i. WriteOk)"
        test_data]
      append_durable [of mock_config fresh_world "[]" "sample_env (\<lambda>i. Timeout) (\<lambda>i. OpenFails)"
        test_data]
    by (simp add: sample_env_def mock_config_def fresh_world_def)
qed

text \<open>
  The claim as stated asks that a failed write be reported to the caller. It is not: with
  a cache file that cannot be opened, the call returns as it does after a successful
  write.
\<close>

theorem append_failure_counterexample:
  "\<not> (wr (sample_env (\<lambda>i. Timeout) (\<lambda>i. OpenFails)) (writes fresh_world) \<noteq> WriteOk \<longrightarrow>
        fst (add_to_cache (sample_env (\<lambda>i. Timeout) (\<lambda>i. OpenFails)) mock_config fresh_world
               test_data) \<noteq>
        fst (add_to_cache (sample_env (\<lambda>i. Timeout) (\<lambda>i. WriteOk)) mock_config fresh_world
               test_data))"
  by (simp add: add_to_cache_def save_cache_def save_try_def sample_env_def mock_config_def
      fresh_world_def Let_def)

lemma accepted_prefix_0 [simp]: "accepted_prefix E p 0 = 0"
  by (simp add: accepted_prefix_def)

lemma upt_add_Suc: "[p..<p + Suc n] = p # [Suc p..<Suc p + n]"
  by (subst upt_rec) simp

lemma accepted_prefix_Suc:
  "accepted_prefix E p (Suc n) =
     (if accepted (net E p) then Suc (accepted_prefix E (Suc p) n) else 0)"
  unfolding accepted_prefix_def upt_add_Suc by simp

lemma accepted_prefix_le: "accepted_prefix E p n \<le> n"
  using length_takeWhile_le [of "\<lambda>i. accepted (net E i)" "[p..<p + n]"]
  by (simp add: accepted_prefix_def)

lemma drain_loop_fifo:
  assumes "\<forall>d \<in> set q. well_formed d"
  shows "fst (drain_loop E c q up w) = Inr (up @ take (accepted_prefix E (posts w) (length q)) q) \<and>
         posts (snd (drain_loop E c q up w)) =
           posts w + min (Suc (accepted_prefix E (posts w) (length q))) (length q) \<and>
         deliveries (trace (snd (drain_loop E c q up w))) =
           deliveries (trace w) @
             zip (take (Suc (accepted_prefix E (posts w) (length q))) q)
                 (map (net E) [posts w..<posts w + length q]) \<and>
         timeline (trace (snd (drain_loop E c q up w))) =
           timeline (trace w) @
             replicate (min (Suc (accepted_prefix E (posts w) (length q))) (length q)) Att \<and>
         acked (trace (snd (drain_loop E c q up w))) =
           acked (trace w) @ take (accepted_prefix E (posts w) (length q)) q \<and>
         cache (snd (drain_loop E c q up w)) = cache w \<and>
         disk (snd (drain_loop E c q up w)) = disk w \<and>
         writes (snd (drain_loop E c q up w)) = writes w \<and>
         data_logger (snd (drain_loop E c q up w)) = data_logger w"
  using assms
proof (induction q arbitrary: up w)
  case Nil
  show ?case by simp
next
  case (Cons d rest)
  then have wf: "well_formed d" and wfr: "\<forall>x \<in> set rest. well_formed x" by simp_all
  obtain b w1 where r0: "upload_single E c w d False = (b, w1)"
    by (cases "upload_single E c w d False")
  from upload_single_once [OF wf, of E c w] r0 have
    r: "upload_single E c w d False = (Inr (accepted (net E (posts w))), w1)" and
    p1: "posts w1 = Suc (posts w)" and
    d1: "deliveries (trace w1) = deliveries (trace w) @ [(d, net E (posts w))]" and
    t1: "timeline (trace w1) = timeline (trace w) @ [Att]"
    by simp_all
  have a1: "acked (trace w1) = acked (trace w) @ (if accepted (net E (posts w)) then [d] else [])"
    using acked_deliveries [OF d1] by simp
  from upload_single_fields [of E c w d False] r0 have
    f1: "cache w1 = cache w" "disk w1 = disk w" "writes w1 = writes w"
        "data_logger w1 = data_logger w"
    by simp_all
  have len: "length (d # rest) = Suc (length rest)" by simp
  note up = upt_add_Suc [of "posts w" "length rest"]
  show ?case
  proof (cases "accepted (net E (posts w))")
    case False
    then have step: "drain_loop E c (d # rest) up w = (Inr up, w1)"
      using r by simp
    show ?thesis unfolding step len up accepted_prefix_Suc using False p1 d1 t1 f1 a1
      by simp
  next
    case True
    then have step: "drain_loop E c (d # rest) up w = drain_loop E c rest (up @ [d]) w1"
      using r by simp
    note IH = Cons.IH [OF wfr, of "up @ [d]" w1]
    show ?thesis unfolding step len up accepted_prefix_Suc using IH True p1 d1 t1 f1 a1
      by simp
  qed
qed


lemma acked_log [simp]: "acked [EvLog l m] = []"
  by (simp add: acked_def)

lemma remove_loop_prefix:
  "cache w = PList (xs @ ys) \<Longrightarrow> remove_loop xs w = (Inr (), w\<lparr>cache := PList ys\<rparr>)"
proof (induction xs arbitrary: w)
  case Nil
  then show ?case by simp
next
  case (Cons x xs)
  have "cache (w\<lparr>cache := PList (xs @ ys)\<rparr>) = PList (xs @ ys)" by simp
  from Cons.IH [OF this] Cons.prems show ?case by simp
qed

lemma upload_cached_data_empty:
  "cache w = PList [] \<Longrightarrow> upload_cached_data E c w = (Inr (), w)"
  by (simp add: upload_cached_data_def)

lemma upload_cached_data_fifo:
  assumes "cache w = PList q" and "\<forall>d \<in> set q. well_formed d"
  shows "fst (upload_cached_data E c w) = Inr () \<and>
         cache (snd (upload_cached_data E c w)) =
           PList (drop (accepted_prefix E (posts w) (length q)) q) \<and>
         posts (snd (upload_cached_data E c w)) =
           posts w + min (Suc (accepted_prefix E (posts w) (length q))) (length q) \<and>
         deliveries (trace (snd (upload_cached_data E c w))) =
           deliveries (trace w) @
             zip (take (Suc (accepted_prefix E (posts w) (length q))) q)
                 (map (net E) [posts w..<posts w + length q]) \<and>
         timeline (trace (snd (upload_cached_data E c w))) =
           timeline (trace w) @
             replicate (min (Suc (accepted_prefix E (posts w) (length q))) (length q)) Att \<and>
         acked (trace (snd (upload_cached_data E c w))) =
           acked (trace w) @ take (accepted_prefix E (posts w) (length q)) q \<and>
         data_logger (snd (upload_cached_data E c w)) = data_logger w \<and>
         (if accepted_prefix E (posts w) (length q) = 0
          then disk (snd (upload_cached_data E c w)) = disk w \<and>
               writes (snd (upload_cached_data E c w)) = writes w
          else writes (snd (upload_cached_data E c w)) = Suc (writes w) \<and>
               (wr E (writes w) = WriteOk \<longrightarrow>
                  disk (snd (upload_cached_data E c w)) =
                    Text (json_dump E (PList (drop (accepted_prefix E (posts w) (length q)) q)))))"
proof (cases "q = []")
  case True
  with assms(1) show ?thesis by (simp add: upload_cached_data_empty)
next
  case False
  let ?n = "accepted_prefix E (posts w) (length q)"
  let ?w1 = "logger Info (DrainStarted (length q)) w"
  obtain r w2 where dl: "drain_loop E c q [] ?w1 = (r, w2)" by (cases "drain_loop E c q [] ?w1")
  from drain_loop_fifo [OF assms(2), of E c "[]" ?w1] dl have
    r: "r = Inr (take ?n q)" and
    p2: "posts w2 = posts w + min (Suc ?n) (length q)" and
    d2: "deliveries (trace w2) = deliveries (trace w) @
           zip (take (Suc ?n) q) (map (net E) [posts w..<posts w + length q])" and
    t2: "timeline (trace w2) = timeline (trace w) @ replicate (min (Suc ?n) (length q)) Att" and
    a2: "acked (trace w2) = acked (trace w) @ take ?n q" and
    f2: "cache w2 = cache w" "disk w2 = disk w" "writes w2 = writes w"
        "data_logger w2 = data_logger w"
    by simp_all
  have "cache w2 = PList (take ?n q @ drop ?n q)" using f2 assms(1) by simp
  from remove_loop_prefix [OF this]
  have rm: "remove_loop (take ?n q) w2 = (Inr (), w2\<lparr>cache := PList (drop ?n q)\<rparr>)" .
  let ?w3 = "w2\<lparr>cache := PList (drop ?n q)\<rparr>"
  have tk: "(take ?n q = []) = (?n = 0)" using False by simp
  obtain w4 where sv: "save_cache E ?w3 = (Inr (), w4)"
    using save_cache_returns [of E ?w3] by (cases "save_cache E ?w3") auto
  from save_cache_fields [of E ?w3] sv have
    f4: "cache w4 = PList (drop ?n q)" "posts w4 = posts w2" "writes w4 = Suc (writes w2)"
        "data_logger w4 = data_logger w2" "deliveries (trace w4) = deliveries (trace w2)"
        "timeline (trace w4) = timeline (trace w2)" "acked (trace w4) = acked (trace w2)"
    by simp_all
  have d4: "wr E (writes w) = WriteOk \<Longrightarrow> disk w4 = Text (json_dump E (PList (drop ?n q)))"
    using save_cache_ok [of E ?w3] sv f2 by simp
  have unfold: "upload_cached_data E c w =
      (if ?n = 0 then (Inr (), ?w3)
       else (Inr (), logger Info (DrainUploaded (length (take ?n q))) w4))"
    using False assms(1) dl r rm sv tk
    by (simp add: upload_cached_data_def Let_def)
  show ?thesis
  proof (cases "?n = 0")
    case True
    then show ?thesis unfolding unfold using p2 d2 t2 a2 f2 assms(1) by simp
  next
    case False
    then show ?thesis unfolding unfold using p2 d2 t2 a2 f2 f4 d4 by simp
  qed
qed


section \<open>Draining the spill queue\<close>

text \<open>
  Claim C5. With the queue \<open>[A, B, C]\<close>, oldest first, the drain makes one request for
  \<open>A\<close>; one for \<open>B\<close> only when the request for \<open>A\<close> was accepted; one for \<open>C\<close> only
  when the request for \<open>B\<close> was accepted. It never sleeps or repeats a request, it stops
  at the first request that is not accepted, and it removes exactly the accepted entries:
  a failure at \<open>B\<close> leaves \<open>[B, C]\<close>.
\<close>

theorem fifo_on_drain:
  assumes "cache w = PList [A, B, C]"
    and "well_formed A" and "well_formed B" and "well_formed C"
  shows "fst (upload_cached_data E c w) = Inr () \<and>
    (\<not> accepted (net E (posts w)) \<longrightarrow>
       deliveries (trace (snd (upload_cached_data E c w))) =
         deliveries (trace w) @ [(A, net E (posts w))] \<and>
       timeline (trace (snd (upload_cached_data E c w))) = timeline (trace w) @ [Att] \<and>
       cache (snd (upload_cached_data E c w)) = PList [A, B, C]) \<and>
    (accepted (net E (posts w)) \<and> \<not> accepted (net E (posts w + 1)) \<longrightarrow>
       deliveries (trace (snd (upload_cached_data E c w))) =
         deliveries (trace w) @ [(A, net E (posts w)), (B, net E (posts w + 1))] \<and>
       timeline (trace (snd (upload_cached_data E c w))) = timeline (trace w) @ [Att, Att] \<and>
       cache (snd (upload_cached_data E c w)) = PList [B, C]) \<and>
    (accepted (net E (posts w)) \<and> accepted (net E (posts w + 1)) \<and>
     \<not> accepted (net E (posts w + 2)) \<longrightarrow>
       deliveries (trace (snd (upload_cached_data E c w))) =
         deliveries (trace w) @
           [(A, net E (posts w)), (B, net E (posts w + 1)), (C, net E (posts w + 2))] \<and>
       timeline (trace (snd (upload_cached_data E c w))) = timeline (trace w) @ [Att, Att, Att] \<and>
       cache (snd (upload_cached_data E c w)) = PList [C]) \<and>
    (accepted (net E (posts w)) \<and> accepted (net E (posts w + 1)) \<and>
     accepted (net E (posts w + 2)) \<longrightarrow>
       deliveries (trace (snd (upload_cached_data E c w))) =
         deliveries (trace w) @
           [(A, net E (posts w)), (B, net E (posts w + 1)), (C, net E (posts w + 2))] \<and>
       timeline (trace (snd (upload_cached_data E c w))) = timeline (trace w) @ [Att, Att, Att] \<and>
       cache (snd (upload_cached_data E c w)) = PList [])"
proof -
  have wf: "\<forall>d \<in> set [A, B, C]. well_formed d" using assms by simp
  have len: "length [A, B, C] = Suc (Suc (Suc 0))" by simp
  have idx: "[posts w..<posts w + Suc (Suc (Suc 0))] = [posts w, posts w + 1, posts w + 2]"
    by (simp add: upt_rec)
  have n: "accepted_prefix E (posts w) (Suc (Suc (Suc 0))) =
      (if accepted (net E (posts w)) then
         if accepted (net E (posts w + 1)) then
           if accepted (net E (posts w + 2)) then 3 else 2
         else 1
       else 0)"
    by (simp add: accepted_prefix_Suc)
  from upload_cached_data_fifo [OF assms(1) wf, of E c]
  show ?thesis unfolding len idx n by (simp add: numeral_2_eq_2 numeral_3_eq_3)
qed


theorem fifo_on_drain_witness:
  "cache (fresh_world\<lparr>cache := PList [test_data, partial_data, empty_data]\<rparr>) =
     PList [test_data, partial_data, empty_data] \<and>
   well_formed test_data \<and> well_formed partial_data \<and> well_formed empty_data \<and>
   accepted (net (sample_env (\<lambda>i. if i = 0 then accepting else Timeout) (\<lambda>i. WriteOk)) 0) \<and>
   \<not> accepted (net (sample_env (\<lambda>i. if i = 0 then accepting else Timeout) (\<lambda>i. WriteOk)) 1) \<and>
   deliveries (trace (snd (upload_cached_data
       (sample_env (\<lambda>i. if i = 0 then accepting else Timeout) (\<lambda>i. WriteOk)) mock_config
       (fresh_world\<lparr>cache := PList [test_data, partial_data, empty_data]\<rparr>)))) =
     [(test_data, accepting), (partial_data, Timeout)] \<and>
   cache (snd (upload_cached_data
       (sample_env (\<lambda>i. if i = 0 then accepting else Timeout) (\<lambda>i. WriteOk)) mock_config
       (fresh_world\<lparr>cache := PList [test_data, partial_data, empty_data]\<rparr>))) =
     PList [partial_data, empty_data]"
proof -
  have wf: "well_formed test_data" "well_formed partial_data" "well_formed empty_data"
    by (simp_all add: well_formed_def test_data_def partial_data_def empty_data_def is_dict_def)
  show ?thesis
    using wf
      fifo_on_drain [of "fresh_world\<lparr>cache := PList [test_data, partial_data, empty_data]\<rparr>"
        test_data partial_data empty_data
        "sample_env (\<lambda>i. if i = 0 then accepting else Timeout) (\<lambda>i. WriteOk)" mock_config]
    by (simp add: sample_env_def fresh_world_def accepting_def)
qed

lemma add_to_cache_deliveries [simp]:
  "deliveries (trace (snd (add_to_cache E c w d))) = deliveries (trace w)"
proof (cases "py_append (cache w) d")
  case (Inl e)
  then show ?thesis by (simp add: add_to_cache_def)
next
  case (Inr v)
  obtain w2 where sv: "save_cache E (w\<lparr>cache := v\<rparr>) = (Inr (), w2)"
    using save_cache_returns [of E "w\<lparr>cache := v\<rparr>"]
    by (cases "save_cache E (w\<lparr>cache := v\<rparr>)") auto
  have "deliveries (trace w2) = deliveries (trace w)"
    using save_cache_fields(5) [of E "w\<lparr>cache := v\<rparr>"] sv by simp
  then show ?thesis using Inr sv by (simp add: add_to_cache_def split: sum.splits)
qed

lemma upload_result:
  "fst (upload E c w d) = Inr b \<Longrightarrow> fst (upload_single E c w d True) = Inr b"
  by (auto simp: upload_def split: prod.splits sum.splits if_splits)

lemma upload_no_drain:
  assumes "fst (upload_single E c w d True) \<noteq> Inr True \<or> \<not> truthy (cache w)"
  shows "deliveries (trace (snd (upload E c w d))) =
         deliveries (trace (snd (upload_single E c w d True)))"
proof -
  obtain r w1 where us: "upload_single E c w d True = (r, w1)"
    by (cases "upload_single E c w d True")
  have c1: "cache w1 = cache w" using upload_single_fields(1) [of E c w d True] us by simp
  show ?thesis
  proof (cases r)
    case (Inl e)
    with us show ?thesis by (simp add: upload_def)
  next
    case (Inr b)
    show ?thesis
    proof (cases b)
      case True
      with assms us Inr c1 show ?thesis by (simp add: upload_def)
    next
      case False
      obtain r2 w2 where ad: "add_to_cache E c w1 d = (r2, w2)"
        by (cases "add_to_cache E c w1 d")
      have "deliveries (trace w2) = deliveries (trace w1)"
        using add_to_cache_deliveries [of E c w1 d] ad by simp
      with False us Inr ad show ?thesis
        by (cases r2) (simp_all add: upload_def)
    qed
  qed
qed

lemma upload_unfold:
  assumes us: "upload_single E c w d True = (Inr b, w1)"
    and q: "cache w = PList q" and wf: "\<forall>x \<in> set q. well_formed x"
  shows "upload E c w d =
     (if b then (if q = [] then (Inr True, w1) else (Inr True, snd (upload_cached_data E c w1)))
      else if enable_cache c then (Inr False, snd (add_to_cache E c w1 d))
      else (Inr False, w1))"
proof -
  have c1: "cache w1 = PList q" using upload_single_fields(1) [of E c w d True] us q by simp
  obtain r3 w3 where dr: "upload_cached_data E c w1 = (r3, w3)"
    by (cases "upload_cached_data E c w1")
  have r3: "r3 = Inr ()" using upload_cached_data_fifo [OF c1 wf, of E c] dr by simp
  obtain r2 w2 where ad: "add_to_cache E c w1 d = (r2, w2)"
    by (cases "add_to_cache E c w1 d")
  have r2: "enable_cache c \<Longrightarrow> r2 = Inr () \<and> cache w2 = PList (q @ [d])"
    using add_to_cache_list [OF _ c1, of c E d] ad by auto
  show ?thesis
    using us c1 dr r3 ad r2 by (auto simp: upload_def)
qed


section \<open>What upload returns\<close>

text \<open>
  Claim C10. What \<^verbatim>\<open>upload\<close> returns is what the fresh delivery returned. No request beyond
  those of the fresh delivery is made unless the fresh delivery succeeded and the queue is
  not empty; and with a queue of well-formed entries \<^verbatim>\<open>upload\<close> returns the result of the
  fresh delivery whatever answers the drained entries get.
\<close>

theorem upload_returns_fresh_result:
  "(\<forall>b. fst (upload E c w d) = Inr b \<longrightarrow> fst (upload_single E c w d True) = Inr b) \<and>
   (fst (upload_single E c w d True) \<noteq> Inr True \<or> \<not> truthy (cache w) \<longrightarrow>
      deliveries (trace (snd (upload E c w d))) =
      deliveries (trace (snd (upload_single E c w d True)))) \<and>
   (well_formed d \<and> cache w = PList q \<and> (\<forall>x \<in> set q. well_formed x) \<longrightarrow>
      fst (upload E c w d) = fst (upload_single E c w d True))"
proof (intro conjI allI impI)
  fix b assume "fst (upload E c w d) = Inr b"
  then show "fst (upload_single E c w d True) = Inr b" by (rule upload_result)
next
  assume "fst (upload_single E c w d True) \<noteq> Inr True \<or> \<not> truthy (cache w)"
  then show "deliveries (trace (snd (upload E c w d))) =
      deliveries (trace (snd (upload_single E c w d True)))" by (rule upload_no_drain)
next
  assume a: "well_formed d \<and> cache w = PList q \<and> (\<forall>x \<in> set q. well_formed x)"
  then obtain b where b: "fst (upload_single E c w d True) = Inr b"
    using upload_single_returns by blast
  then have us: "upload_single E c w d True = (Inr b, snd (upload_single E c w d True))"
    by (metis prod.collapse)
  from upload_unfold [OF us] a b
  show "fst (upload E c w d) = fst (upload_single E c w d True)" by simp
qed

lemmas eval_defs =
  upload_def upload_single_def build_payload_def fill_def sensor_value_def time_time_def
  attempt_loop.simps attempt_once_def backoff_def mark_upload_success_def upto_rec1
  add_to_cache_def save_cache_def save_try_def upload_cached_data_def
  load_cache_def load_try_def uploader_init_def emit_def logger_def Let_def
  sample_env_def fresh_world_def mock_config_def accepting_def rejecting_def
  test_data_def partial_data_def empty_data_def well_formed_def is_dict_def

theorem upload_returns_fresh_result_witness:
  "well_formed test_data \<and>
   cache (fresh_world\<lparr>cache := PList [partial_data]\<rparr>) = PList [partial_data] \<and>
   well_formed partial_data \<and>
   fst (upload_single (sample_env (\<lambda>i. if i = 0 then accepting else Timeout) (\<lambda>i. WriteOk))
          mock_config (fresh_world\<lparr>cache := PList [partial_data]\<rparr>) test_data True) = Inr True \<and>
   fst (upload (sample_env (\<lambda>i. if i = 0 then accepting else Timeout) (\<lambda>i. WriteOk))
          mock_config (fresh_world\<lparr>cache := PList [partial_data]\<rparr>) test_data) = Inr True \<and>
   fst (upload_single (sample_env (\<lambda>i. Timeout) (\<lambda>i. WriteOk))
          mock_config (fresh_world\<lparr>cache := PList [partial_data]\<rparr>) test_data True) \<noteq> Inr True \<and>
   deliveries (trace (snd (upload (sample_env (\<lambda>i. Timeout) (\<lambda>i. WriteOk))
          mock_config (fresh_world\<lparr>cache := PList [partial_data]\<rparr>) test_data))) =
     [(test_data, Timeout), (test_data, Timeout), (test_data, Timeout)]"
proof -
  let ?E1 = "sample_env (\<lambda>i. if i = 0 then accepting else Timeout) (\<lambda>i. WriteOk)"
  let ?E2 = "sample_env (\<lambda>i. Timeout) (\<lambda>i. WriteOk)"
  let ?w = "fresh_world\<lparr>cache := PList [partial_data]\<rparr>"
  have wf: "well_formed test_data" and wfp: "well_formed partial_data"
    by (simp_all add: well_formed_def test_data_def partial_data_def is_dict_def)
  have wfq: "\<forall>x \<in> set [partial_data]. well_formed x" using wfp by simp
  have c: "cache ?w = PList [partial_data]" by simp
  have us1: "fst (upload_single ?E1 mock_config ?w test_data True) = Inr True"
    by (simp add: eval_defs)
  have us2: "fst (upload_single ?E2 mock_config ?w test_data True) \<noteq> Inr True"
    by (simp add: eval_defs)
  have dl: "deliveries (trace (snd (upload_single ?E2 mock_config ?w test_data True))) =
       [(test_data, Timeout), (test_data, Timeout), (test_data, Timeout)]"
    by (simp add: eval_defs)
  from upload_returns_fresh_result [of ?E1 mock_config ?w test_data "[partial_data]"] wf c wfq
  have "fst (upload ?E1 mock_config ?w test_data) =
        fst (upload_single ?E1 mock_config ?w test_data True)"
    by blast
  with us1 have r1: "fst (upload ?E1 mock_config ?w test_data) = Inr True" by simp
  from upload_returns_fresh_result [of ?E2 mock_config ?w test_data "[partial_data]"] us2
  have "deliveries (trace (snd (upload ?E2 mock_config ?w test_data))) =
        deliveries (trace (snd (upload_single ?E2 mock_config ?w test_data True)))"
    by blast
  with dl have r2: "deliveries (trace (snd (upload ?E2 mock_config ?w test_data))) =
       [(test_data, Timeout), (test_data, Timeout), (test_data, Timeout)]" by simp
  show ?thesis using wf c wfp us1 r1 us2 r2 by blast
qed

lemma acked_cong: "deliveries tr = deliveries tr' \<Longrightarrow> acked tr = acked tr'"
  by (simp add: acked_def)

lemma add_to_cache_effect:
  assumes "enable_cache c" and "cache w = PList q"
  shows "cache (snd (add_to_cache E c w d)) = PList (q @ [d])"
    and "writes (snd (add_to_cache E c w d)) = Suc (writes w)"
    and "acked (trace (snd (add_to_cache E c w d))) = acked (trace w)"
    and "wr E (writes w) = WriteOk \<Longrightarrow>
         disk (snd (add_to_cache E c w d)) = Text (json_dump E (PList (q @ [d])))"
proof -
  let ?w1 = "w\<lparr>cache := PList (q @ [d])\<rparr>"
  show "cache (snd (add_to_cache E c w d)) = PList (q @ [d])"
    and "writes (snd (add_to_cache E c w d)) = Suc (writes w)"
    by (simp_all add: add_to_cache_list [OF assms])
  show "acked (trace (snd (add_to_cache E c w d))) = acked (trace w)"
    by (rule acked_cong) simp
  assume "wr E (writes w) = WriteOk"
  then show "disk (snd (add_to_cache E c w d)) = Text (json_dump E (PList (q @ [d])))"
    using save_cache_ok [of E ?w1] by (simp add: add_to_cache_list [OF assms])
qed

lemma upload_effect:
  assumes wf: "well_formed d" and q: "cache w = PList q" and wfq: "\<forall>x \<in> set q. well_formed x"
  shows "\<exists>b w1 n. upload_single E c w d True = (Inr b, w1) \<and>
           n = accepted_prefix E (posts w1) (length q) \<and>
           fst (upload E c w d) = Inr b \<and>
           cache (snd (upload E c w d)) =
             PList (if b then drop n q else if enable_cache c then q @ [d] else q) \<and>
           acked (trace (snd (upload E c w d))) =
             acked (trace w) @ (if b then d # take n q else []) \<and>
           (if (b \<and> n = 0) \<or> (\<not> b \<and> \<not> enable_cache c)
            then disk (snd (upload E c w d)) = disk w \<and>
                 writes (snd (upload E c w d)) = writes w
            else writes (snd (upload E c w d)) = Suc (writes w) \<and>
                 (wr E (writes w) = WriteOk \<longrightarrow>
                    disk (snd (upload E c w d)) =
                      Text (json_dump E (cache (snd (upload E c w d))))))"
proof -
  from upload_single_retry [OF wf, of E c w True] obtain b w1 where
    us: "upload_single E c w d True = (Inr b, w1)" and
    a1: "acked (trace w1) = acked (trace w) @ (if b then [d] else [])"
    by blast
  from upload_single_fields [of E c w d True] us have
    f1: "cache w1 = PList q" "disk w1 = disk w" "writes w1 = writes w"
    using q by simp_all
  let ?n = "accepted_prefix E (posts w1) (length q)"
  note un = upload_unfold [OF us q wfq]
  note dr = upload_cached_data_fifo [OF f1(1) wfq, of E c]
  note ad = add_to_cache_effect [OF _ f1(1), of c E d]
  have "fst (upload E c w d) = Inr b" unfolding un by simp
  moreover have "cache (snd (upload E c w d)) =
      PList (if b then drop ?n q else if enable_cache c then q @ [d] else q)"
    unfolding un using dr ad(1) f1(1) by simp
  moreover have "acked (trace (snd (upload E c w d))) =
      acked (trace w) @ (if b then d # take ?n q else [])"
    unfolding un using dr ad(3) a1 by simp
  moreover have "(if (b \<and> ?n = 0) \<or> (\<not> b \<and> \<not> enable_cache c)
            then disk (snd (upload E c w d)) = disk w \<and>
                 writes (snd (upload E c w d)) = writes w
            else writes (snd (upload E c w d)) = Suc (writes w) \<and>
                 (wr E (writes w) = WriteOk \<longrightarrow>
                    disk (snd (upload E c w d)) =
                      Text (json_dump E (cache (snd (upload E c w d))))))"
    unfolding un using dr ad f1 by (cases "q = []") auto
  ultimately show ?thesis using us by blast
qed


lemma upload_single_rejected:
  assumes "well_formed d" and "1 \<le> retry_times c" and "\<not> retryable (net E (posts w))"
  shows "fst (upload_single E c w d True) = Inr (accepted (net E (posts w))) \<and>
         attempts (trace (snd (upload_single E c w d True))) = attempts (trace w) + 1"
proof -
  from build_payload_total [OF assms(1), of E w] obtain p w1
    where bp: "build_payload E w d = (Inr p, w1)" by (cases "build_payload E w d") auto
  from build_payload_frame [OF bp] have fr: "posts w1 = posts w" "trace w1 = trace w" by simp_all
  let ?m = "retry_times c"
  have l: "[1..?m] = 1 # [2..?m]" using assms(2) by (simp add: upto_rec1)
  have nr: "\<not> retryable (net E (posts w1))" using assms(3) fr by simp
  have us: "upload_single E c w d True =
      (Inr (accepted (net E (posts w))), snd (attempt_once E c True d p ?m 1 w1))"
    using upload_single_Inr [OF bp, of c True] nr fr by (simp add: l attempt_loop_Cons)
  show ?thesis unfolding us using fr by (simp add: attempts_def)
qed

section \<open>When entries enter and leave the spill queue\<close>

text \<open>
  Claim C2, as the code has it. With caching enabled, \<^verbatim>\<open>upload\<close> appends the reading set
  to the queue whenever the fresh delivery returned failure: after the retries were used
  up, and also after a single attempt that the collector rejected with \<^verbatim>\<open>ok: false\<close>.
  Entries leave the queue only in the drain that follows a successful fresh delivery, and
  the entries that leave are exactly those whose single request was acknowledged.
\<close>

theorem spill_queue_discipline:
  assumes "enable_cache c" and "well_formed d" and "cache w = PList q"
    and "\<forall>x \<in> set q. well_formed x"
  shows "(fst (upload_single E c w d True) = Inr False \<longrightarrow>
            cache (snd (upload E c w d)) = PList (q @ [d]) \<and>
            acked (trace (snd (upload E c w d))) = acked (trace w)) \<and>
         (fst (upload_single E c w d True) = Inr True \<longrightarrow>
            cache (snd (upload E c w d)) =
              PList (drop (accepted_prefix E (posts (snd (upload_single E c w d True))) (length q)) q) \<and>
            acked (trace (snd (upload E c w d))) =
              acked (trace w) @
                d # take (accepted_prefix E (posts (snd (upload_single E c w d True))) (length q)) q) \<and>
         (1 \<le> retry_times c \<and> \<not> retryable (net E (posts w)) \<and> \<not> accepted (net E (posts w)) \<longrightarrow>
            cache (snd (upload E c w d)) = PList (q @ [d]) \<and>
            attempts (trace (snd (upload E c w d))) = attempts (trace w) + 1)"
proof -
  from upload_effect [OF assms(2,3,4), of E c] obtain b w1 where
    us: "upload_single E c w d True = (Inr b, w1)" and
    ca: "cache (snd (upload E c w d)) =
           PList (if b then drop (accepted_prefix E (posts w1) (length q)) q else q @ [d])" and
    ak: "acked (trace (snd (upload E c w d))) =
           acked (trace w) @ (if b then d # take (accepted_prefix E (posts w1) (length q)) q else [])"
    using assms(1) by auto
  have rej: "b = False \<and> attempts (trace (snd (upload E c w d))) = attempts (trace w) + 1"
    if "1 \<le> retry_times c" "\<not> retryable (net E (posts w))" "\<not> accepted (net E (posts w))"
  proof -
    from upload_single_rejected [OF assms(2) that(1,2)] that(3) us
    have b: "b = False" and at: "attempts (trace w1) = attempts (trace w) + 1" by simp_all
    have "fst (upload_single E c w d True) \<noteq> Inr True" using us b by simp
    from upload_no_drain [of E c w d, OF disjI1, OF this] us
    have "attempts (trace (snd (upload E c w d))) = attempts (trace w1)"
      by (simp add: attempts_def)
    with b at show ?thesis by simp
  qed
  show ?thesis using us ca ak rej by auto
qed

text \<open>
  The claim as stated fails: a reading set that the collector rejects at the first of three
  attempts is appended to the queue.
\<close>

theorem spill_after_rejection_counterexample:
  "\<not> (cache (snd (upload (sample_env (\<lambda>i. rejecting) (\<lambda>i. WriteOk)) mock_config fresh_world
                    test_data)) = PList [test_data] \<longrightarrow>
        attempts (trace (snd (upload (sample_env (\<lambda>i. rejecting) (\<lambda>i. WriteOk)) mock_config
                    fresh_world test_data))) = nat (retry_times mock_config))"
  by (simp add: eval_defs attempts_def)


theorem spill_queue_discipline_witness:
  "enable_cache mock_config \<and> well_formed test_data \<and> cache fresh_world = PList [] \<and>
   1 \<le> retry_times mock_config \<and>
   \<not> retryable (net (sample_env (\<lambda>i. rejecting) (\<lambda>i. WriteOk)) (posts fresh_world)) \<and>
   \<not> accepted (net (sample_env (\<lambda>i. rejecting) (\<lambda>i. WriteOk)) (posts fresh_world)) \<and>
   fst (upload_single (sample_env (\<lambda>i. rejecting) (\<lambda>i. WriteOk)) mock_config fresh_world
          test_data True) = Inr False \<and>
   cache (snd (upload (sample_env (\<lambda>i. rejecting) (\<lambda>i. WriteOk)) mock_config fresh_world
          test_data)) = PList [test_data] \<and>
   attempts (trace (snd (upload (sample_env (\<lambda>i. rejecting) (\<lambda>i. WriteOk)) mock_config
          fresh_world test_data))) = 1 \<and>
   cache (fresh_world\<lparr>cache := PList [partial_data]\<rparr>) = PList [partial_data] \<and>
   well_formed partial_data \<and>
   fst (upload_single (sample_env (\<lambda>i. accepting) (\<lambda>i. WriteOk)) mock_config
          (fresh_world\<lparr>cache := PList [partial_data]\<rparr>) test_data True) = Inr True \<and>
   cache (snd (upload (sample_env (\<lambda>i. accepting) (\<lambda>i. WriteOk)) mock_config
          (fresh_world\<lparr>cache := PList [partial_data]\<rparr>) test_data)) = PList [] \<and>
   acked (trace (snd (upload (sample_env (\<lambda>i. accepting) (\<lambda>i. WriteOk)) mock_config
          (fresh_world\<lparr>cache := PList [partial_data]\<rparr>) test_data))) =
     [test_data, partial_data]"
proof -
  let ?E1 = "sample_env (\<lambda>i. rejecting) (\<lambda>i. WriteOk)"
  let ?E2 = "sample_env (\<lambda>i. accepting) (\<lambda>i. WriteOk)"
  let ?w = "fresh_world\<lparr>cache := PList [partial_data]\<rparr>"
  have en: "enable_cache mock_config" and rt: "1 \<le> retry_times mock_config"
    by (simp_all add: mock_config_def)
  have wf: "well_formed test_data" and wfp: "well_formed partial_data"
    by (simp_all add: well_formed_def test_data_def partial_data_def is_dict_def)
  have wfq: "\<forall>x \<in> set [partial_data]. well_formed x" using wfp by simp
  have wf0: "\<forall>x \<in> set []. well_formed x" by simp
  have c0: "cache fresh_world = PList []" by (simp add: fresh_world_def)
  have c1: "cache ?w = PList [partial_data]" by simp
  have n1: "\<not> retryable (net ?E1 (posts fresh_world))" "\<not> accepted (net ?E1 (posts fresh_world))"
    by (simp_all add: sample_env_def rejecting_def)
  have us1: "fst (upload_single ?E1 mock_config fresh_world test_data True) = Inr False"
    by (simp add: eval_defs)
  have us2: "fst (upload_single ?E2 mock_config ?w test_data True) = Inr True"
    by (simp add: eval_defs)
  have p2: "posts (snd (upload_single ?E2 mock_config ?w test_data True)) = 1"
    by (simp add: eval_defs)
  have n2: "accepted_prefix ?E2 1 (length [partial_data]) = 1"
    by (simp add: accepted_prefix_def sample_env_def accepting_def)
  have a0: "acked (trace fresh_world) = []" "acked (trace ?w) = []" "attempts (trace fresh_world) = 0"
    by (simp_all add: fresh_world_def attempts_def)
  from spill_queue_discipline [OF en wf c0 wf0, of ?E1] us1 rt n1 a0
  have r1: "cache (snd (upload ?E1 mock_config fresh_world test_data)) = PList [test_data]"
    "attempts (trace (snd (upload ?E1 mock_config fresh_world test_data))) = 1"
    by simp_all
  from spill_queue_discipline [OF en wf c1 wfq, of ?E2] us2 p2 n2 a0
  have r2: "cache (snd (upload ?E2 mock_config ?w test_data)) = PList []"
    "acked (trace (snd (upload ?E2 mock_config ?w test_data))) = [test_data, partial_data]"
    by simp_all
  show ?thesis using en wf c0 rt n1 us1 r1 c1 wfp us2 r2 by blast
qed

lemma upload_step:
  assumes en: "enable_cache c" and wf: "well_formed d" and q: "cache w = PList q"
    and wfq: "\<forall>x \<in> set q. well_formed x"
  shows "\<exists>b q' A. fst (upload E c w d) = Inr b \<and>
           cache (snd (upload E c w d)) = PList q' \<and> (\<forall>x \<in> set q'. well_formed x) \<and>
           acked (trace (snd (upload E c w d))) = acked (trace w) @ A \<and>
           mset q + {#d#} = mset q' + mset A \<and>
           ((\<forall>i. wr E i = WriteOk) \<longrightarrow>
              disk (snd (upload E c w d)) = Text (json_dump E (cache (snd (upload E c w d)))) \<or>
              disk (snd (upload E c w d)) = disk w \<and> cache (snd (upload E c w d)) = cache w)"
proof -
  let ?w' = "snd (upload E c w d)"
  from upload_effect [OF wf q wfq, of E c] obtain b n where
    r: "fst (upload E c w d) = Inr b" and
    ca0: "cache ?w' = PList (if b then drop n q else if enable_cache c then q @ [d] else q)" and
    ak: "acked (trace ?w') = acked (trace w) @ (if b then d # take n q else [])" and
    dk0: "if (b \<and> n = 0) \<or> (\<not> b \<and> \<not> enable_cache c)
         then disk ?w' = disk w \<and> writes ?w' = writes w
         else writes ?w' = Suc (writes w) \<and>
              (wr E (writes w) = WriteOk \<longrightarrow> disk ?w' = Text (json_dump E (cache ?w')))"
    by blast
  have ca: "cache ?w' = PList (if b then drop n q else q @ [d])" using ca0 en by simp
  have dk: "if b \<and> n = 0
         then disk ?w' = disk w \<and> writes ?w' = writes w
         else writes ?w' = Suc (writes w) \<and>
              (wr E (writes w) = WriteOk \<longrightarrow> disk ?w' = Text (json_dump E (cache ?w')))"
    using dk0 en by simp
  let ?q' = "if b then drop n q else q @ [d]"
  let ?A = "if b then d # take n q else []"
  have w1: "\<forall>x \<in> set ?q'. well_formed x"
    using wf wfq by (auto dest: in_set_dropD)
  have "mset (take n q) + mset (drop n q) = mset q"
    by (metis append_take_drop_id mset_append)
  then have ms: "mset q + {#d#} = mset ?q' + mset ?A"
    by (auto simp: ac_simps)
  have dsk: "(\<forall>i. wr E i = WriteOk) \<longrightarrow>
      disk ?w' = Text (json_dump E (cache ?w')) \<or> disk ?w' = disk w \<and> cache ?w' = cache w"
    using dk ca q by (cases "b \<and> n = 0") auto
  show ?thesis using r ca w1 ak ms dsk by blast
qed

lemma run_effect:
  assumes en: "enable_cache c"
  shows "cache w = PList q \<Longrightarrow> \<forall>x \<in> set q. well_formed x \<Longrightarrow> \<forall>d \<in> set ds. well_formed d \<Longrightarrow>
   \<exists>qf A. cache (snd (run E c w ds)) = PList qf \<and> (\<forall>x \<in> set qf. well_formed x) \<and>
          acked (trace (snd (run E c w ds))) = acked (trace w) @ A \<and>
          mset q + mset ds = mset qf + mset A \<and>
          ((\<forall>i. wr E i = WriteOk) \<longrightarrow>
             disk (snd (run E c w ds)) = Text (json_dump E (cache (snd (run E c w ds)))) \<or>
             disk (snd (run E c w ds)) = disk w \<and> cache (snd (run E c w ds)) = cache w)"
proof (induction ds arbitrary: w q)
  case Nil
  then show ?case by simp
next
  case (Cons d ds)
  let ?w1 = "snd (upload E c w d)"
  from Cons.prems have wf: "well_formed d" and wfds: "\<forall>x \<in> set ds. well_formed x" by simp_all
  from upload_step [OF en wf Cons.prems(1,2), of E] obtain b q1 A1 where
    c1: "cache ?w1 = PList q1" and wf1: "\<forall>x \<in> set q1. well_formed x" and
    a1: "acked (trace ?w1) = acked (trace w) @ A1" and
    m1: "mset q + {#d#} = mset q1 + mset A1" and
    d1: "(\<forall>i. wr E i = WriteOk) \<longrightarrow>
           disk ?w1 = Text (json_dump E (cache ?w1)) \<or> disk ?w1 = disk w \<and> cache ?w1 = cache w"
    by blast
  from Cons.IH [OF c1 wf1 wfds] obtain qf A2 where
    cf: "cache (snd (run E c ?w1 ds)) = PList qf" and wff: "\<forall>x \<in> set qf. well_formed x" and
    a2: "acked (trace (snd (run E c ?w1 ds))) = acked (trace ?w1) @ A2" and
    m2: "mset q1 + mset ds = mset qf + mset A2" and
    d2: "(\<forall>i. wr E i = WriteOk) \<longrightarrow>
           disk (snd (run E c ?w1 ds)) = Text (json_dump E (cache (snd (run E c ?w1 ds)))) \<or>
           disk (snd (run E c ?w1 ds)) = disk ?w1 \<and> cache (snd (run E c ?w1 ds)) = cache ?w1"
    by blast
  have step: "snd (run E c w (d # ds)) = snd (run E c ?w1 ds)"
    by (simp split: prod.splits)
  have ak: "acked (trace (snd (run E c ?w1 ds))) = acked (trace w) @ (A1 @ A2)"
    using a1 a2 by simp
  have "mset q + {#d#} + mset ds = mset q1 + mset A1 + mset ds" using m1 by simp
  also have "\<dots> = mset qf + mset A2 + mset A1" using m2 by (simp add: ac_simps)
  finally have ms: "mset q + mset (d # ds) = mset qf + mset (A1 @ A2)"
    by (simp add: ac_simps)
  have dk: "(\<forall>i. wr E i = WriteOk) \<longrightarrow>
           disk (snd (run E c ?w1 ds)) = Text (json_dump E (cache (snd (run E c ?w1 ds)))) \<or>
           disk (snd (run E c ?w1 ds)) = disk w \<and> cache (snd (run E c ?w1 ds)) = cache w"
    using d1 d2 by auto
  show ?case unfolding step using cf wff ak ms dk by blast
qed


lemma reloaded_disk:
  "disk w = disk w' \<Longrightarrow> reloaded E c w = reloaded E c w'"
  by (auto simp: reloaded_def uploader_init_def load_cache_def load_try_def Let_def
      split: file_state.splits option.splits sum.splits)

lemma reloaded_synced:
  assumes "enable_cache c" and "disk w = Text t" and "json_load E t = Some (PList q)"
  shows "reloaded E c w = PList q"
proof -
  have "disk (w\<lparr>data_logger := False, cache := PList []\<rparr>) = Text t" using assms(2) by simp
  from load_cache_list [OF this assms(3)] assms(1)
  show ?thesis by (simp add: reloaded_def uploader_init_def Let_def)
qed

lemma reloaded_init:
  "reloaded E c (snd (uploader_init E c w)) = cache (snd (uploader_init E c w))"
proof -
  have "disk (snd (uploader_init E c w)) = disk w"
    by (auto simp: uploader_init_def load_cache_def load_try_def Let_def
        split: file_state.splits option.splits sum.splits)
  from reloaded_disk [OF this] show ?thesis by (simp add: reloaded_def)
qed

section \<open>No reading set is lost\<close>

text \<open>
  Claim C1. With caching enabled, run \<^verbatim>\<open>upload\<close> on any sequence of well-formed reading
  sets, against any sequence of answers from the collector. Every reading set that was
  handed in, or was in the queue before, and was not acknowledged during the run is in
  the queue afterwards; indeed the reading sets handed in and queued before are, counted
  with multiplicity, those queued afterwards and those acknowledged. When the writes of
  the cache file go through, the file agreed with the queue before the run and the JSON
  codec reads back the final queue it wrote, a process started afterwards loads that same
  queue, in the same order.
\<close>

theorem no_loss:
  assumes "enable_cache c" and "cache w = PList q" and "\<forall>x \<in> set q. well_formed x"
    and "\<forall>d \<in> set ds. well_formed d"
  shows "cache (snd (run E c w ds)) = PList (queue (snd (run E c w ds))) \<and>
         mset q + mset ds =
           mset (queue (snd (run E c w ds))) + mset (acked_during w (snd (run E c w ds))) \<and>
         (\<forall>d \<in> set q \<union> set ds.
            d \<notin> set (acked_during w (snd (run E c w ds))) \<longrightarrow>
            d \<in> set (queue (snd (run E c w ds)))) \<and>
         ((\<forall>i. wr E i = WriteOk) \<and> reloaded E c w = cache w \<and>
          json_load E (json_dump E (cache (snd (run E c w ds)))) = Some (cache (snd (run E c w ds)))
          \<longrightarrow> reloaded E c (snd (run E c w ds)) = cache (snd (run E c w ds)))"
proof -
  let ?wf = "snd (run E c w ds)"
  from run_effect [OF assms, of E] obtain qf A where
    cf: "cache ?wf = PList qf" and
    ak: "acked (trace ?wf) = acked (trace w) @ A" and
    ms: "mset q + mset ds = mset qf + mset A" and
    dk: "(\<forall>i. wr E i = WriteOk) \<longrightarrow>
           disk ?wf = Text (json_dump E (cache ?wf)) \<or> disk ?wf = disk w \<and> cache ?wf = cache w"
    by blast
  have qu: "queue ?wf = qf" using cf by (simp add: queue_def)
  have ad: "acked_during w ?wf = A" using ak by (simp add: acked_during_def)
  have mem: "d \<in> set qf" if "d \<in> set q \<union> set ds" "d \<notin> set A" for d
  proof -
    from that(1) have "d \<in># mset q + mset ds" by auto
    then have "d \<in># mset qf + mset A" using ms by simp
    with that(2) show ?thesis by auto
  qed
  have rl: "reloaded E c ?wf = cache ?wf"
    if "\<forall>i. wr E i = WriteOk" "reloaded E c w = cache w"
       "json_load E (json_dump E (cache ?wf)) = Some (cache ?wf)"
  proof -
    from dk that(1) consider
      (written) "disk ?wf = Text (json_dump E (cache ?wf))" |
      (untouched) "disk ?wf = disk w" "cache ?wf = cache w"
      by blast
    then show ?thesis
    proof cases
      case written
      from reloaded_synced [OF assms(1) written] that(3) cf show ?thesis by simp
    next
      case untouched
      from reloaded_disk [OF untouched(1), of E c] that(2) untouched(2) show ?thesis by simp
    qed
  qed
  show ?thesis unfolding qu ad using cf ms mem rl by blast
qed

theorem no_loss_witness:
  "enable_cache mock_config \<and> cache fresh_world = PList [] \<and>
   well_formed test_data \<and> well_formed partial_data \<and> well_formed empty_data \<and>
   (\<forall>i. wr (sample_env (\<lambda>i. if i = 3 then rejecting else if i = 4 \<or> i = 5 then accepting
                                else Timeout) (\<lambda>i. WriteOk)) i = WriteOk) \<and>
   reloaded (sample_env (\<lambda>i. if i = 3 then rejecting else if i = 4 \<or> i = 5 then accepting
                              else Timeout) (\<lambda>i. WriteOk)) mock_config fresh_world =
     cache fresh_world \<and>
   queue (snd (run (sample_env (\<lambda>i. if i = 3 then rejecting else if i = 4 \<or> i = 5 then accepting
                              else Timeout) (\<lambda>i. WriteOk))
                 mock_config fresh_world [test_data, partial_data, empty_data])) = [partial_data] \<and>
   acked_during fresh_world
     (snd (run (sample_env (\<lambda>i. if i = 3 then rejecting else if i = 4 \<or> i = 5 then accepting
                              else Timeout) (\<lambda>i. WriteOk))
                 mock_config fresh_world [test_data, partial_data, empty_data])) =
     [empty_data, test_data] \<and>
   reloaded (sample_env (\<lambda>i. if i = 3 then rejecting else if i = 4 \<or> i = 5 then accepting
                              else Timeout) (\<lambda>i. WriteOk)) mock_config
     (snd (run (sample_env (\<lambda>i. if i = 3 then rejecting else if i = 4 \<or> i = 5 then accepting
                              else Timeout) (\<lambda>i. WriteOk))
                 mock_config fresh_world [test_data, partial_data, empty_data])) =
     PList [partial_data]"
proof -
  let ?E = "sample_env (\<lambda>i. if i = 3 then rejecting else if i = 4 \<or> i = 5 then accepting
                            else Timeout) (\<lambda>i. WriteOk)"
  let ?ds = "[test_data, partial_data, empty_data]"
  let ?wf = "snd (run ?E mock_config fresh_world ?ds)"
  have en: "enable_cache mock_config" by (simp add: mock_config_def)
  have c0: "cache fresh_world = PList []" by (simp add: fresh_world_def)
  have wf: "well_formed test_data" "well_formed partial_data" "well_formed empty_data"
    by (simp_all add: well_formed_def test_data_def partial_data_def empty_data_def is_dict_def)
  have wf0: "\<forall>x \<in> set []. well_formed x" by simp
  have wfds: "\<forall>d \<in> set ?ds. well_formed d" using wf by simp
  have wr: "\<forall>i. wr ?E i = WriteOk" by (simp add: sample_env_def)
  have r0: "reloaded ?E mock_config fresh_world = cache fresh_world"
    by (simp add: reloaded_def eval_defs)
  have cf: "cache ?wf = PList [partial_data]" by (simp add: eval_defs)
  have ak: "acked_during fresh_world ?wf = [empty_data, test_data]"
    by (simp add: acked_during_def acked_def eval_defs)
  have rt: "json_load ?E (json_dump ?E (cache ?wf)) = Some (cache ?wf)"
    by (simp add: sample_env_def)
  from no_loss [OF en c0 wf0 wfds, of ?E] wr r0 rt
  have "reloaded ?E mock_config ?wf = cache ?wf" by blast
  with cf have rl: "reloaded ?E mock_config ?wf = PList [partial_data]" by simp
  have qu: "queue ?wf = [partial_data]" using cf by (simp add: queue_def)
  show ?thesis using en c0 wf wr r0 qu ak rl by blast
qed

end
